(* ===== verification/Prelude.thy ===== *)
theory Prelude
  imports Main
begin

text \<open>
  Shared vocabulary of the development: the types that name the model's values
  (paths, byte strings, JavaScript values thrown or used to reject a promise,
  console lines), JavaScript's out-of-range array read, the decimal printing of
  numbers that template literals perform, and the generic list lemmas that the
  component theories use.
\<close>

named_theorems model_simps "evaluation rules of the model's helper functions"

type_synonym path = string
type_synonym bytes = string

text \<open>
  A JavaScript value that is thrown or passed to \<open>reject\<close>: an \<open>Error\<close> instance,
  which carries a \<open>message\<close>, or any other value.
\<close>

datatype jsval = JsError string | JsOther

text \<open>The console: \<open>console.log\<close> writes to standard output, \<open>console.error\<close> to standard error.\<close>

datatype channel = Stdout | Stderr

type_synonym console = "(channel \<times> string) list"

text \<open>
  \<open>xs[i]\<close> on a JavaScript array: \<open>undefined\<close> (here \<open>None\<close>) when \<open>i\<close> is out of range,
  where HOL's \<open>xs ! i\<close> would be unspecified.
\<close>

fun js_nth :: "'a list \<Rightarrow> nat \<Rightarrow> 'a option" where
  "js_nth [] i = None"
| "js_nth (x # xs) 0 = Some x"
| "js_nth (x # xs) (Suc i) = js_nth xs i"

text \<open>
  The decimal string of a natural number, as \<open>String(n)\<close> and a template literal
  \<open>${n}\<close> print a non-negative integer.
\<close>

definition digit_char :: "nat \<Rightarrow> char" where
  "digit_char d = char_of (48 + d)"

fun show_nat :: "nat \<Rightarrow> string" where
  "show_nat n = (if n < 10 then [digit_char n] else show_nat (n div 10) @ [digit_char (n mod 10)])"

declare show_nat.simps [simp del]

text \<open>The value a string of decimal digits denotes (the inverse reading of \<open>show_nat\<close>).\<close>

definition digit_val :: "char \<Rightarrow> nat" where
  "digit_val c = of_char c - 48"

definition dec_value :: "string \<Rightarrow> nat" where
  "dec_value s = foldl (\<lambda>acc c. 10 * acc + digit_val c) 0 s"

definition is_dec_digit :: "char \<Rightarrow> bool" where
  "is_dec_digit c \<longleftrightarrow> (48::nat) \<le> of_char c \<and> of_char c \<le> (57::nat)"

subsection \<open>Lemmas on the helpers\<close>

lemma js_nth_Some [simp]: "i < length xs \<Longrightarrow> js_nth xs i = Some (xs ! i)"
  by (induction xs i rule: js_nth.induct) auto

lemma js_nth_None [simp]: "length xs \<le> i \<Longrightarrow> js_nth xs i = None"
  by (induction xs i rule: js_nth.induct) auto

lemma js_nth_eq_None_iff: "js_nth xs i = None \<longleftrightarrow> length xs \<le> i"
  by (cases "i < length xs") auto

lemma digit_char_val [simp]: "d < 10 \<Longrightarrow> digit_val (digit_char d) = d"
  by (simp add: digit_val_def digit_char_def)

lemma digit_char_is_dec_digit [simp]: "d < 10 \<Longrightarrow> is_dec_digit (digit_char d)"
  by (simp add: is_dec_digit_def digit_char_def)

lemma digit_char_simps [model_simps]:
  "digit_char 0 = CHR ''0''" "digit_char 1 = CHR ''1''" "digit_char 2 = CHR ''2''"
  "digit_char 3 = CHR ''3''" "digit_char 4 = CHR ''4''" "digit_char 5 = CHR ''5''"
  "digit_char 6 = CHR ''6''" "digit_char 7 = CHR ''7''" "digit_char 8 = CHR ''8''"
  "digit_char 9 = CHR ''9''"
  unfolding digit_char_def by code_simp+

lemma show_nat_Cons_small [model_simps]: "n < 10 \<Longrightarrow> show_nat n = [digit_char n]"
  by (simp add: show_nat.simps)

lemma show_nat_big [model_simps]:
  "\<not> n < 10 \<Longrightarrow> show_nat n = show_nat (n div 10) @ [digit_char (n mod 10)]"
  by (subst show_nat.simps) simp

lemma dec_value_snoc: "dec_value (s @ [c]) = 10 * dec_value s + digit_val c"
  by (simp add: dec_value_def)

lemma show_nat_nonempty: "show_nat n \<noteq> []"
  by (subst show_nat.simps) simp

lemma show_nat_digits: "\<forall>c \<in> set (show_nat n). is_dec_digit c"
proof (induction n rule: show_nat.induct)
  case (1 n)
  then show ?case by (cases "n < 10") (auto simp: model_simps)
qed

lemma dec_value_show_nat: "dec_value (show_nat n) = n"
proof (induction n rule: show_nat.induct)
  case (1 n)
  then show ?case
    by (cases "n < 10") (simp_all add: model_simps dec_value_snoc dec_value_def)
qed

lemma show_nat_inj: "show_nat m = show_nat n \<Longrightarrow> m = n"
  by (metis dec_value_show_nat)

text \<open>Counting the elements a filter keeps and drops.\<close>

lemma length_filter_not:
  "length (filter (\<lambda>x. \<not> P x) xs) = length xs - length (filter P xs)"
  using sum_length_filter_compl [of P xs] by simp

end
