(* ===== verification/Url.thy ===== *)
theory Url
  imports Prelude "HOL-Library.Code_Target_Nat"
begin

text \<open>
  The two uses \<open>src/src/downloader.ts\<close> makes of the WHATWG URL API: \<open>new URL(url)\<close>
  in the constructor (line 43), which throws a \<open>TypeError\<close> on a string it cannot
  parse, and \<open>this.url.searchParams.get('list')\<close> in \<open>downloadPlaylist\<close> (line 91).
  \<open>url_parse\<close> follows the basic URL parser as far as these uses depend on it:
  leading and trailing C0 controls and spaces are stripped and tabs and newlines
  removed; a scheme (a letter, then letters, digits, \<open>+\<close>, \<open>-\<close>, \<open>.\<close>) and a colon
  are required; a special scheme (\<open>http\<close>, \<open>https\<close>, \<open>ws\<close>, \<open>wss\<close>, \<open>ftp\<close>) needs a
  host the host parser accepts (\<open>host_parse\<close>: a bracketed IPv6 address, an IPv4
  address in any of its decimal, octal and hexadecimal forms when the last label is
  numeric, or an ASCII domain, percent-decoded and lower-cased, without forbidden
  code points) and a decimal port below 65536; a \<open>file\<close> URL after two slashes needs
  an empty host, a Windows drive letter or a host the host parser accepts; another
  scheme followed by \<open>//\<close> needs an opaque host without forbidden host code points
  (or a bracketed IPv6 address), something after an \<open>@\<close>, a host before a port, and a
  valid port (\<open>url_authority_ok\<close>); the query is what follows the
  first \<open>?\<close> before the fragment.  \<open>searchParams\<close> reads the query as
  \<open>application/x-www-form-urlencoded\<close>: sequences split on \<open>&\<close>, empty ones
  dropped, name and value split at the first \<open>=\<close>, \<open>+\<close> read as a space and
  percent escapes decoded; \<open>get\<close> returns the value of the first pair with the name.
  Domain labels are not converted by IDNA: characters are 8-bit and the model reads
  them as ASCII.  All of this is the platform's URL API, which the code only calls:
  the theory models it so that the constructor's and \<open>downloadPlaylist\<close>'s outcomes
  (\<open>Orchestrator\<close>) are computed from the URL string as the platform computes them.
  Its one lemma used by the program's properties is the round trip of the \<open>list\<close>
  parameter (\<open>searchParams_list_roundtrip\<close>).
\<close>

record url =
  url_scheme :: string
  url_query :: "string option"

definition is_ascii_alpha :: "char \<Rightarrow> bool" where
  "is_ascii_alpha c \<longleftrightarrow>
     (let n = of_char c :: nat in (65 \<le> n \<and> n \<le> 90) \<or> (97 \<le> n \<and> n \<le> 122))"

definition is_scheme_char :: "char \<Rightarrow> bool" where
  "is_scheme_char c \<longleftrightarrow> is_ascii_alpha c \<or> is_dec_digit c \<or> c \<in> set ''+-.''"

definition ascii_lower :: "char \<Rightarrow> char" where
  "ascii_lower c = (let n = of_char c :: nat in if 65 \<le> n \<and> n \<le> 90 then char_of (n + 32) else c)"

definition c0_or_space :: "char \<Rightarrow> bool" where
  "c0_or_space c \<longleftrightarrow> (of_char c :: nat) \<le> 32"

definition tab_or_newline :: "char \<Rightarrow> bool" where
  "tab_or_newline c \<longleftrightarrow> c = CHR 0x09 \<or> c = CHR 0x0A \<or> c = CHR 0x0D"

definition url_clean :: "string \<Rightarrow> string" where
  "url_clean s =
     filter (\<lambda>c. \<not> tab_or_newline c) (rev (dropWhile c0_or_space (rev (dropWhile c0_or_space s))))"

definition special_schemes :: "string list" where
  "special_schemes = [''http'', ''https'', ''ws'', ''wss'', ''ftp'']"

text \<open>The authority of a special URL: after the slashes, up to the path, query or fragment.\<close>

definition authority_of :: "string \<Rightarrow> string" where
  "authority_of rest =
     takeWhile (\<lambda>c. c \<notin> set [CHR ''/'', CHR 0x5C, CHR ''?'', CHR ''#''])
       (dropWhile (\<lambda>c. c = CHR ''/'' \<or> c = CHR 0x5C) rest)"

fun split_on :: "char \<Rightarrow> string \<Rightarrow> string list" where
  "split_on d [] = [[]]"
| "split_on d (c # cs) = (if c = d then [] # split_on d cs else (let ws = split_on d cs in (c # hd ws) # tl ws))"

definition hex_val :: "char \<Rightarrow> nat option" where
  "hex_val c =
     (let n = of_char c :: nat in
      if 48 \<le> n \<and> n \<le> 57 then Some (n - 48)
      else if 65 \<le> n \<and> n \<le> 70 then Some (n - 55)
      else if 97 \<le> n \<and> n \<le> 102 then Some (n - 87)
      else None)"

fun pct_decode :: "string \<Rightarrow> string" where
  "pct_decode (c # a # b # cs) =
     (if c = CHR ''%'' \<and> hex_val a \<noteq> None \<and> hex_val b \<noteq> None
      then char_of (16 * the (hex_val a) + the (hex_val b)) # pct_decode cs
      else c # pct_decode (a # b # cs))"
| "pct_decode cs = cs"

text \<open>
  The host parser for special URLs.  A host in brackets is an IPv6 address; any
  other host is percent-decoded, ASCII-lowercased, refused if it holds a forbidden
  domain code point, and read as an IPv4 address when its last label is a number.
\<close>

definition forbidden_host_cp :: "char \<Rightarrow> bool" where
  "forbidden_host_cp c \<longleftrightarrow>
     c \<in> set [CHR 0x00, CHR 0x09, CHR 0x0A, CHR 0x0D, CHR '' '', CHR ''#'', CHR ''/'', CHR '':'',
               CHR ''<'', CHR ''>'', CHR ''?'', CHR ''@'', CHR ''['', CHR 0x5C, CHR '']'', CHR ''^'', CHR ''|'']"

definition forbidden_domain_cp :: "char \<Rightarrow> bool" where
  "forbidden_domain_cp c \<longleftrightarrow>
     forbidden_host_cp c \<or> (of_char c :: nat) \<le> 31 \<or> c = CHR ''%'' \<or> c = CHR 0x7F"

text \<open>Digits in a radix (2 to 16), most significant first.\<close>

definition parse_radix :: "nat \<Rightarrow> string \<Rightarrow> nat option" where
  "parse_radix r s =
     foldl (\<lambda>acc c. case acc of None \<Rightarrow> None
                    | Some n \<Rightarrow> (case hex_val c of Some v \<Rightarrow> if v < r then Some (r * n + v) else None | None \<Rightarrow> None))
       (Some 0) s"

text \<open>The IPv4 number parser: \<open>0x\<close> for hexadecimal, a leading \<open>0\<close> for octal.\<close>

definition ipv4_number :: "string \<Rightarrow> nat option" where
  "ipv4_number s =
     (if s = [] then None
      else (let (r, d) = (if 2 \<le> length s \<and> (take 2 s = ''0x'' \<or> take 2 s = ''0X'') then (16, drop 2 s)
                          else if 2 \<le> length s \<and> hd s = CHR ''0'' then (8, tl s) else (10, s))
            in if d = [] then Some 0 else parse_radix r d))"

definition ends_in_number :: "string \<Rightarrow> bool" where
  "ends_in_number s =
     (let ps = split_on CHR ''.'' s
      in if last ps = [] \<and> length ps = 1 then False
         else (let l = last (if last ps = [] then butlast ps else ps)
               in (l \<noteq> [] \<and> list_all is_dec_digit l) \<or> ipv4_number l \<noteq> None))"

definition ipv4_parse :: "string \<Rightarrow> nat option" where
  "ipv4_parse s =
     (let ps0 = split_on CHR ''.'' s;
          ps = (if last ps0 = [] \<and> 1 < length ps0 then butlast ps0 else ps0);
          ns = map ipv4_number ps
      in if 4 < length ps \<or> None \<in> set ns then None
         else (let vs = map the ns
               in if list_ex (\<lambda>v. 255 < v) (butlast vs) \<or> 256 ^ (5 - length vs) \<le> last vs then None
                  else Some (last vs + sum_list (map (\<lambda>(i, v). v * 256 ^ (3 - i)) (zip [0..<length vs - 1] (butlast vs))))))"

text \<open>A dotted-decimal IPv4 address inside an IPv6 address: four decimal numbers
  without leading zeros, each at most 255.\<close>

definition ipv4_in_ipv6 :: "string \<Rightarrow> nat list option" where
  "ipv4_in_ipv6 s =
     (let ps = split_on CHR ''.'' s
      in if length ps = 4 \<and> list_all (\<lambda>p. p \<noteq> [] \<and> list_all is_dec_digit p \<and> (length p = 1 \<or> hd p \<noteq> CHR ''0'')
                                           \<and> dec_value p \<le> 255) ps
         then Some (map dec_value ps) else None)"

definition hex_run :: "string \<Rightarrow> nat" where
  "hex_run s = length (takeWhile (\<lambda>c. hex_val c \<noteq> None) (take 4 s))"

text \<open>The main loop of the IPv6 parser over the address pieces, the piece index and
  the compression index.\<close>

function ipv6_loop :: "nat list \<Rightarrow> nat \<Rightarrow> nat option \<Rightarrow> string \<Rightarrow> (nat list \<times> nat \<times> nat option) option" where
  "ipv6_loop a p cmp [] = Some (a, p, cmp)"
| "ipv6_loop a p cmp (c # cs) =
     (if p = 8 then None
      else if c = CHR '':'' then (if cmp \<noteq> None then None else ipv6_loop a (Suc p) (Some (Suc p)) cs)
      else (let l = hex_run (c # cs);
                v = foldl (\<lambda>v d. 16 * v + the (hex_val d)) 0 (take l (c # cs));
                r = drop l (c # cs)
            in if r \<noteq> [] \<and> hd r = CHR ''.'' then
                 (if l = 0 \<or> 6 < p then None
                  else (case ipv4_in_ipv6 (c # cs) of
                          None \<Rightarrow> None
                        | Some ns \<Rightarrow> Some (a[p := 256 * ns ! 0 + ns ! 1, Suc p := 256 * ns ! 2 + ns ! 3], p + 2, cmp)))
               else if r \<noteq> [] \<and> hd r = CHR '':'' then
                 (if tl r = [] then None else ipv6_loop (a[p := v]) (Suc p) cmp (tl r))
               else if r = [] then Some (a[p := v], Suc p, cmp)
               else None))"
  by pat_completeness auto
termination
  by (relation "measure (\<lambda>(a, p, cmp, s). length s)") auto

definition ipv6_parse :: "string \<Rightarrow> nat list option" where
  "ipv6_parse s =
     (let start = (if s \<noteq> [] \<and> hd s = CHR '':'' then (if take 2 s = ''::'' then Some (drop 2 s, 1, Some 1) else None)
                   else Some (s, 0, None))
      in case start of
           None \<Rightarrow> None
         | Some (r, p, cmp) \<Rightarrow>
            (case ipv6_loop (replicate 8 0) p cmp r of
               None \<Rightarrow> None
             | Some (a, p', None) \<Rightarrow> if p' = 8 then Some a else None
             | Some (a, p', Some c) \<Rightarrow> Some (take c a @ replicate (8 - p') 0 @ take (p' - c) (drop c a))))"

datatype host = Domain string | IPv4 nat | IPv6 "nat list"

definition host_parse :: "string \<Rightarrow> host option" where
  "host_parse h =
     (if h \<noteq> [] \<and> hd h = CHR ''[''
      then (if last h \<noteq> CHR '']'' \<or> length h < 2 then None
            else map_option IPv6 (ipv6_parse (butlast (tl h))))
      else (let d = map ascii_lower (pct_decode h)
            in if d = [] \<or> list_ex forbidden_domain_cp d then None
               else if ends_in_number d then map_option IPv4 (ipv4_parse d)
               else Some (Domain d)))"

text \<open>The host and port of an authority: the host ends at the first \<open>:\<close> outside brackets.\<close>

fun host_split :: "bool \<Rightarrow> string \<Rightarrow> string \<times> string option" where
  "host_split b [] = ([], None)"
| "host_split b (c # cs) =
     (if c = CHR '':'' \<and> \<not> b then ([], Some cs)
      else (let (h, p) = host_split (if c = CHR ''['' then True else if c = CHR '']'' then False else b) cs
            in (c # h, p)))"

text \<open>The port state: decimal digits, at most 65535; an empty port is allowed.\<close>

definition port_ok :: "string option \<Rightarrow> bool" where
  "port_ok port \<longleftrightarrow>
     (case port of None \<Rightarrow> True | Some pt \<Rightarrow> list_all is_dec_digit pt \<and> (pt = [] \<or> dec_value pt \<le> 65535))"

definition authority_ok :: "string \<Rightarrow> bool" where
  "authority_ok a \<longleftrightarrow>
     (let hp = rev (takeWhile (\<lambda>c. c \<noteq> CHR ''@'') (rev a));
          (host, port) = host_split False hp
      in host \<noteq> [] \<and> host_parse host \<noteq> None \<and> port_ok port)"

text \<open>The opaque host of a non-special URL: an IPv6 address in brackets, or any string
  without a forbidden host code point (it is neither decoded nor lower-cased).\<close>

definition opaque_host_ok :: "string \<Rightarrow> bool" where
  "opaque_host_ok h \<longleftrightarrow>
     (if h \<noteq> [] \<and> hd h = CHR ''['' then host_parse h \<noteq> None else \<not> list_ex forbidden_host_cp h)"

text \<open>The authority of a non-special URL that has one (\<open>scheme://\<close>): it ends at \<open>/\<close>,
  \<open>?\<close> or \<open>#\<close> (not at a backslash).  After an \<open>@\<close> something must follow, a port
  needs a host, and the host may be empty.\<close>

definition opaque_authority_of :: "string \<Rightarrow> string" where
  "opaque_authority_of rest = takeWhile (\<lambda>c. c \<notin> set [CHR ''/'', CHR ''?'', CHR ''#'']) (drop 2 rest)"

definition opaque_authority_ok :: "string \<Rightarrow> bool" where
  "opaque_authority_ok a \<longleftrightarrow>
     (let hp = rev (takeWhile (\<lambda>c. c \<noteq> CHR ''@'') (rev a));
          (host, port) = host_split False hp
      in (CHR ''@'' \<in> set a \<longrightarrow> hp \<noteq> []) \<and> (port \<noteq> None \<longrightarrow> host \<noteq> []) \<and>
         opaque_host_ok host \<and> port_ok port)"

text \<open>The host of a \<open>file\<close> URL, after two slashes or backslashes: empty, a Windows
  drive letter (then read as the path), or a host the host parser accepts; there is
  no port.\<close>

definition is_windows_drive_letter :: "string \<Rightarrow> bool" where
  "is_windows_drive_letter s \<longleftrightarrow>
     length s = 2 \<and> is_ascii_alpha (s ! 0) \<and> (s ! 1 = CHR '':'' \<or> s ! 1 = CHR ''|'')"

definition file_host_ok :: "string \<Rightarrow> bool" where
  "file_host_ok rest \<longleftrightarrow>
     (if 2 \<le> length rest \<and> rest ! 0 \<in> {CHR ''/'', CHR 0x5C} \<and> rest ! 1 \<in> {CHR ''/'', CHR 0x5C}
      then (let h = takeWhile (\<lambda>c. c \<notin> set [CHR ''/'', CHR 0x5C, CHR ''?'', CHR ''#'']) (drop 2 rest)
            in h = [] \<or> is_windows_drive_letter h \<or> host_parse h \<noteq> None)
      else True)"

text \<open>Which authority check applies depends on the scheme: the special schemes but
  \<open>file\<close>, \<open>file\<close>, and the others.\<close>

definition url_authority_ok :: "string \<Rightarrow> string \<Rightarrow> bool" where
  "url_authority_ok sch rest \<longleftrightarrow>
     (if sch \<in> set special_schemes then authority_ok (authority_of rest)
      else if sch = ''file'' then file_host_ok rest
      else take 2 rest \<noteq> ''//'' \<or> opaque_authority_ok (opaque_authority_of rest))"

definition query_of :: "string \<Rightarrow> string option" where
  "query_of rest =
     (let b = takeWhile (\<lambda>c. c \<noteq> CHR ''#'') rest
      in if CHR ''?'' \<in> set b then Some (drop (Suc (length (takeWhile (\<lambda>c. c \<noteq> CHR ''?'') b))) b)
         else None)"

definition url_parse :: "string \<Rightarrow> url option" where
  "url_parse s =
     (let t = url_clean s;
          sch = takeWhile (\<lambda>c. c \<noteq> CHR '':'') t;
          rest = drop (Suc (length sch)) t
      in if sch = [] \<or> length sch = length t \<or> \<not> is_ascii_alpha (hd sch) \<or> \<not> list_all is_scheme_char sch
         then None
         else (let sch' = map ascii_lower sch
               in if \<not> url_authority_ok sch' rest then None
                  else Some \<lparr>url_scheme = sch', url_query = query_of rest\<rparr>))"

subsection \<open>The form-urlencoded query\<close>

definition form_decode :: "string \<Rightarrow> string" where
  "form_decode s = pct_decode (map (\<lambda>c. if c = CHR ''+'' then CHR '' '' else c) s)"

definition form_pair :: "string \<Rightarrow> string \<times> string" where
  "form_pair sq =
     (let n = takeWhile (\<lambda>c. c \<noteq> CHR ''='') sq in (form_decode n, form_decode (drop (Suc (length n)) sq)))"

definition form_parse :: "string \<Rightarrow> (string \<times> string) list" where
  "form_parse q = map form_pair (filter (\<lambda>sq. sq \<noteq> []) (split_on CHR ''&'' q))"

definition searchParams_get :: "url \<Rightarrow> string \<Rightarrow> string option" where
  "searchParams_get u k =
     (case url_query u of
        None \<Rightarrow> None
      | Some q \<Rightarrow> map_option snd (find (\<lambda>p. fst p = k) (form_parse q)))"

text \<open>
  The serializer of \<open>URLSearchParams\<close> for one name or value, which builds the
  URLs the parser reads: letters, digits and \<open>*-._\<close> stay, a space becomes \<open>+\<close>,
  every other character a percent escape.
\<close>

definition form_safe :: "char \<Rightarrow> bool" where
  "form_safe c \<longleftrightarrow> is_ascii_alpha c \<or> is_dec_digit c \<or> c \<in> set ''*-._''"

definition hex_digit :: "nat \<Rightarrow> char" where
  "hex_digit n = (if n < 10 then char_of (48 + n) else char_of (55 + n))"

definition form_enc_char :: "char \<Rightarrow> string" where
  "form_enc_char c =
     (if form_safe c then [c] else if c = CHR '' '' then ''+''
      else [CHR ''%'', hex_digit (of_char c div 16), hex_digit (of_char c mod 16)])"

definition form_encode :: "string \<Rightarrow> string" where
  "form_encode s = concat (map form_enc_char s)"

subsection \<open>Lemmas\<close>

lemma of_char_hex_digit: "n < 16 \<Longrightarrow> (of_char (hex_digit n) :: nat) = (if n < 10 then 48 + n else 55 + n)"
  by (simp add: hex_digit_def)

lemma hex_val_hex_digit: "n < 16 \<Longrightarrow> hex_val (hex_digit n) = Some n"
  by (simp add: hex_val_def of_char_hex_digit Let_def)

lemma hex_digit_not_plus: "n < 16 \<Longrightarrow> hex_digit n \<noteq> CHR ''+''"
proof
  assume "n < 16" "hex_digit n = CHR ''+''"
  then have "(of_char (hex_digit n) :: nat) = 43" by simp
  with \<open>n < 16\<close> show False by (simp add: of_char_hex_digit split: if_splits)
qed

lemma pct_decode_other: "c \<noteq> CHR ''%'' \<Longrightarrow> pct_decode (c # cs) = c # pct_decode cs"
proof (cases cs)
  case (Cons a as)
  assume "c \<noteq> CHR ''%''"
  then show ?thesis using Cons by (cases as) simp_all
qed simp

lemma form_safe_not_special: "form_safe c \<Longrightarrow> c \<noteq> CHR ''+'' \<and> c \<noteq> CHR ''%''"
  by (auto simp: form_safe_def is_ascii_alpha_def is_dec_digit_def)

lemma form_decode_step: "form_decode (form_enc_char c @ rest) = c # form_decode rest"
proof -
  let ?k = "of_char c :: nat"
  have "?k < 16 * 16" using nat_of_char_less_256 [of c] by simp
  then have k: "?k div 16 < 16" "?k mod 16 < 16" by (simp_all add: less_mult_imp_div_less)
  show ?thesis
  proof (cases "form_safe c")
    case True
    then show ?thesis using form_safe_not_special [OF True]
      by (simp add: form_enc_char_def form_decode_def pct_decode_other)
  next
    case False
    show ?thesis
    proof (cases "c = CHR '' ''")
      case True
      then show ?thesis using False by (simp add: form_enc_char_def form_decode_def pct_decode_other)
    next
      case sp: False
      then show ?thesis using False k
        by (simp add: form_enc_char_def form_decode_def hex_digit_not_plus hex_val_hex_digit)
    qed
  qed
qed

lemma form_decode_encode: "form_decode (form_encode s) = s"
proof (induction s)
  case Nil
  then show ?case by (simp add: form_encode_def form_decode_def)
next
  case (Cons c s)
  then show ?case using form_decode_step [of c "form_encode s"] by (simp add: form_encode_def)
qed

lemma form_enc_char_chars:
  "x \<in> set (form_enc_char c) \<Longrightarrow> (32::nat) < of_char x \<and> x \<notin> set ''#&=?''"
proof -
  assume x: "x \<in> set (form_enc_char c)"
  have "(of_char c :: nat) < 16 * 16" using nat_of_char_less_256 [of c] by simp
  then have k: "(of_char c :: nat) div 16 < 16" "(of_char c :: nat) mod 16 < 16"
    by (simp_all add: less_mult_imp_div_less)
  have sp: "(of_char y :: nat) \<in> {35, 38, 61, 63}" if "y \<in> set ''#&=?''" for y
    using that by auto
  have hex: "(32::nat) < of_char (hex_digit n) \<and> hex_digit n \<notin> set ''#&=?''" if "n < 16" for n
  proof -
    have "(of_char (hex_digit n) :: nat) \<in> {48..57} \<union> {65..70}"
      using that by (simp add: of_char_hex_digit)
    then show ?thesis using sp [of "hex_digit n"] by auto
  qed
  show ?thesis
    using x hex [OF k(1)] hex [OF k(2)]
    by (auto simp: form_enc_char_def form_safe_def is_ascii_alpha_def is_dec_digit_def Let_def split: if_splits)
qed

lemma dropWhile_all_not: "\<forall>x \<in> set xs. \<not> P x \<Longrightarrow> dropWhile P xs = xs"
  by (cases xs) auto

lemma form_encode_chars:
  "x \<in> set (form_encode v) \<Longrightarrow> (32::nat) < of_char x \<and> x \<notin> set ''#&=?''"
  by (auto simp: form_encode_def dest: form_enc_char_chars)

lemma split_on_no_delim: "d \<notin> set s \<Longrightarrow> split_on d s = [s]"
  by (induction s) auto

lemma url_clean_visible: "\<forall>x \<in> set s. (32::nat) < of_char x \<Longrightarrow> url_clean s = s"
proof -
  assume all: "\<forall>x \<in> set s. (32::nat) < of_char x"
  then have nc: "\<forall>x \<in> set s. \<not> c0_or_space x \<and> \<not> tab_or_newline x"
    by (auto simp: c0_or_space_def tab_or_newline_def)
  have d1: "dropWhile c0_or_space s = s" by (rule dropWhile_all_not) (use nc in blast)
  have d2: "dropWhile c0_or_space (rev s) = rev s" by (rule dropWhile_all_not) (use nc in simp)
  have f: "filter (\<lambda>c. \<not> tab_or_newline c) s = s" by (rule filter_True) (use nc in blast)
  show ?thesis unfolding url_clean_def d1 d2 rev_rev_ident f ..
qed

lemma scheme_char_not_colon: "is_scheme_char c \<Longrightarrow> c \<noteq> CHR '':''"
  by (auto simp: is_scheme_char_def is_ascii_alpha_def is_dec_digit_def)

text \<open>A URL of visible characters with a well-formed scheme: \<open>new URL\<close> succeeds exactly
  when the authority check of its scheme passes.\<close>

lemma url_parse_split:
  assumes "\<forall>x \<in> set (sch @ rest). (32::nat) < of_char x" and "sch \<noteq> []"
    and "is_ascii_alpha (hd sch)" and "list_all is_scheme_char sch"
  shows "url_parse (sch @ CHR '':'' # rest) =
           (if url_authority_ok (map ascii_lower sch) rest
            then Some \<lparr>url_scheme = map ascii_lower sch, url_query = query_of rest\<rparr> else None)"
proof -
  let ?s = "sch @ CHR '':'' # rest"
  have "(32::nat) < of_char (CHR '':'')" by simp
  then have clean: "url_clean ?s = ?s" using assms(1) by (intro url_clean_visible) auto
  have nc: "CHR '':'' \<notin> set sch" using assms(4) scheme_char_not_colon by (auto simp: list_all_iff)
  then have sch: "takeWhile (\<lambda>c. c \<noteq> CHR '':'') ?s = sch" by (subst takeWhile_append2) auto
  have rest: "drop (Suc (length sch)) ?s = rest" by simp
  show ?thesis unfolding url_parse_def Let_def clean sch rest using assms(2-4) by simp
qed

text \<open>\<open>searchParams.get('list')\<close> returns the playlist identifier a
  playlist URL carries, whatever characters it holds, once the identifier is
  form-encoded into the query (parse after print).\<close>

lemma searchParams_list_roundtrip:
  "map_option (\<lambda>u. searchParams_get u ''list'') (url_parse (''https://www.youtube.com/playlist?list='' @ form_encode v))
   = Some (Some v)"
proof -
  let ?E = "form_encode v"
  let ?r = "''//www.youtube.com/playlist?list='' @ ?E"
  have ok: "\<forall>x \<in> set ?E. (32::nat) < of_char x \<and> x \<notin> set ''#&=?''" using form_encode_chars by blast
  have "\<forall>x \<in> set (''https'' @ ''//www.youtube.com/playlist?list=''). (32::nat) < of_char x" by code_simp
  then have vis: "\<forall>x \<in> set (''https'' @ ?r). (32::nat) < of_char x" using ok by auto
  have scheme: "''https'' \<noteq> [] \<and> is_ascii_alpha (hd ''https'') \<and> list_all is_scheme_char ''https'' \<and>
                map ascii_lower ''https'' = ''https''"
    by code_simp
  have e: "url_parse (''https://www.youtube.com/playlist?list='' @ ?E) =
      (if url_authority_ok ''https'' ?r then Some \<lparr>url_scheme = ''https'', url_query = query_of ?r\<rparr> else None)"
    using url_parse_split [OF vis] scheme by simp
  have auth: "url_authority_ok ''https'' ?r"
  proof -
    have "authority_of ?r = ''www.youtube.com''" by (simp add: authority_of_def)
    moreover have "authority_ok ''www.youtube.com''" by code_simp
    ultimately show ?thesis by (simp add: url_authority_ok_def special_schemes_def)
  qed
  have q: "query_of (''//www.youtube.com/playlist?list='' @ ?E) = Some (''list='' @ ?E)"
  proof -
    have "takeWhile (\<lambda>c. c \<noteq> CHR ''#'') ?E = ?E" using ok by auto
    then show ?thesis by (simp add: query_of_def)
  qed
  have fp: "form_parse (''list='' @ ?E) = [(''list'', v)]"
  proof -
    have "CHR ''&'' \<notin> set (''list='' @ ?E)" using ok by auto
    then have sp: "split_on CHR ''&'' (''list='' @ ?E) = [''list='' @ ?E]" by (rule split_on_no_delim)
    have "form_decode ''list'' = ''list''" by code_simp
    then have "form_pair (''list='' @ ?E) = (''list'', v)"
      by (simp add: form_pair_def form_decode_encode)
    then show ?thesis using sp by (simp add: form_parse_def)
  qed
  show ?thesis unfolding e using auth q fp by (simp add: searchParams_get_def)
qed

end
