(* ===== verification/Paths.thy ===== *)
theory Paths
  imports Prelude
begin

text \<open>
  The output path of an item: \<open>getOutputPath\<close> (lines 60--62 of
  \<open>src/src/downloader.ts\<close>) joins the output folder and \<open>createSlug(title) + format\<close>
  with \<open>path.join\<close> of \<open>node:path\<close> (POSIX flavour).  \<open>path.join\<close> drops empty
  arguments, joins the rest with \<open>/\<close> and normalises the result; the
  normalisation is modelled segment by segment (empty and \<open>.\<close> segments vanish,
  \<open>..\<close> removes the previous segment, or stays at the front of a relative path),
  which is what \<open>normalizeString\<close> of \<open>node:path\<close> computes character by
  character.  The slug function lives in \<open>src/utils/create-slug\<close>, which is not
  part of the sources; it is a parameter \<open>slug\<close> here.
\<close>

definition slash :: char where
  "slash = CHR ''/''"

fun split_slash :: "string \<Rightarrow> string list" where
  "split_slash [] = [[]]"
| "split_slash (c # cs) =
     (let r = split_slash cs in if c = slash then [] # r else (c # hd r) # tl r)"

fun join_slash :: "string list \<Rightarrow> string" where
  "join_slash [] = []"
| "join_slash [s] = s"
| "join_slash (s # ss) = s @ slash # join_slash ss"

text \<open>The segment stack of \<open>normalizeString\<close>, top first; \<open>up\<close> is \<open>allowAboveRoot\<close>.\<close>

fun norm_segs :: "bool \<Rightarrow> string list \<Rightarrow> string list \<Rightarrow> string list" where
  "norm_segs up st [] = st"
| "norm_segs up st (s # ss) =
     (if s = [] \<or> s = ''.'' then norm_segs up st ss
      else if s = ''..'' then
        (case st of
           t # st' \<Rightarrow> if t \<noteq> ''..'' then norm_segs up st' ss
                      else norm_segs up (if up then ''..'' # st else st) ss
         | [] \<Rightarrow> norm_segs up (if up then [''..''] else []) ss)
      else norm_segs up (s # st) ss)"

definition posix_normalize :: "string \<Rightarrow> string" where
  "posix_normalize p =
     (if p = [] then ''.''
      else let absolute = (hd p = slash);
               trailing = (last p = slash);
               res = join_slash (rev (norm_segs (\<not> absolute) [] (split_slash p)))
           in if res = [] then (if absolute then [slash] else if trailing then ''./'' else ''.'')
              else (if absolute then [slash] else []) @ res @ (if trailing then [slash] else []))"

definition path_join :: "string \<Rightarrow> string \<Rightarrow> string" where
  "path_join a b =
     (let parts = filter (\<lambda>s. s \<noteq> []) [a, b]
      in if parts = [] then ''.'' else posix_normalize (join_slash parts))"

definition getOutputPath :: "(string \<Rightarrow> string) \<Rightarrow> path \<Rightarrow> string \<Rightarrow> string \<Rightarrow> path" where
  "getOutputPath slug outputFolder t format = path_join outputFolder (slug t @ format)"

text \<open>A file name that \<open>path.join\<close> keeps as one last segment.\<close>

definition plain_name :: "string \<Rightarrow> bool" where
  "plain_name n \<longleftrightarrow> n \<noteq> [] \<and> slash \<notin> set n \<and> n \<noteq> ''.'' \<and> n \<noteq> ''..''"

subsection \<open>Lemmas\<close>

lemma split_slash_nonempty: "split_slash s \<noteq> []"
  by (induction s) (auto simp: Let_def)

lemma split_slash_no_slash: "slash \<notin> set n \<Longrightarrow> split_slash n = [n]"
  by (induction n) (auto simp: Let_def)

lemma split_slash_append_slash:
  "split_slash (f @ slash # n) = split_slash f @ split_slash n"
proof (induction f)
  case Nil
  then show ?case by simp
next
  case (Cons c f)
  then show ?case
    using split_slash_nonempty [of f]
    by (auto simp: Let_def neq_Nil_conv)
qed

lemma norm_segs_snoc_plain:
  "plain_name n \<Longrightarrow> norm_segs up st (ss @ [n]) = n # norm_segs up st ss"
  by (induction up st ss rule: norm_segs.induct)
     (auto simp: plain_name_def split: list.splits)

lemma join_slash_snoc:
  "join_slash (xs @ [n]) = (if xs = [] then n else join_slash xs @ slash # n)"
  by (induction xs rule: join_slash.induct) auto

lemma plain_name_hd_last: "plain_name n \<Longrightarrow> hd n \<noteq> slash \<and> last n \<noteq> slash"
  unfolding plain_name_def by (metis hd_in_set last_in_set)

lemma plain_name_last: "plain_name n \<Longrightarrow> last (f @ slash # n) \<noteq> slash"
  by (simp add: plain_name_hd_last plain_name_def)

text \<open>Joining a folder and a plain name: a prefix fixed by the folder, then the name.\<close>

definition join_prefix :: "string \<Rightarrow> string" where
  "join_prefix f =
     (let absolute = (hd f = slash);
          segs = rev (norm_segs (\<not> absolute) [] (split_slash f))
      in (if absolute then [slash] else []) @ (if segs = [] then [] else join_slash segs @ [slash]))"

lemma path_join_plain:
  assumes "plain_name n"
  shows "path_join f n = (if f = [] then n else join_prefix f @ n)"
proof (cases "f = []")
  case True
  with assms show ?thesis
    using plain_name_hd_last [OF assms]
    by (simp add: path_join_def posix_normalize_def plain_name_def split_slash_no_slash Let_def)
next
  case False
  have nn: "n \<noteq> []" and ns: "slash \<notin> set n" using assms by (auto simp: plain_name_def)
  have split: "split_slash (f @ slash # n) = split_slash f @ [n]"
    using ns by (simp add: split_slash_append_slash split_slash_no_slash)
  have hd: "hd (f @ slash # n) = hd f" using False by simp
  have last: "last (f @ slash # n) \<noteq> slash" using assms by (rule plain_name_last)
  have parts: "filter (\<lambda>s. s \<noteq> []) [f, n] = [f, n]" using False nn by simp
  have ln: "last n \<noteq> slash" using plain_name_hd_last [OF assms] by simp
  show ?thesis
    using False nn ln
    by (simp add: path_join_def parts posix_normalize_def split hd last Let_def
                  norm_segs_snoc_plain [OF assms] join_slash_snoc join_prefix_def)
qed

text \<open>C30: \<open>getOutputPath\<close> separates items by their slugs: when slug plus format is a
  plain file name, two items get the same output path only if their slugs are equal.
  Items whose titles slug to the same name therefore share one file.\<close>

theorem getOutputPath_injective:
  assumes "plain_name (slug t1 @ format)" and "plain_name (slug t2 @ format)"
      and "getOutputPath slug outputFolder t1 format = getOutputPath slug outputFolder t2 format"
  shows "slug t1 = slug t2"
  using assms by (simp add: getOutputPath_def path_join_plain split: if_splits)

theorem getOutputPath_injective_witness:
  "plain_name ((\<lambda>t. ''song'') ''First'' @ ''.mp3'') \<and> plain_name ((\<lambda>t. ''song'') ''Second'' @ ''.mp3'') \<and>
   getOutputPath (\<lambda>t. ''song'') ''music'' ''First'' ''.mp3'' = ''music/song.mp3'' \<and>
   getOutputPath (\<lambda>t. ''song'') ''music'' ''Second'' ''.mp3'' = ''music/song.mp3'' \<and>
   (\<lambda>t. ''song'') ''First'' = (\<lambda>t::string. ''song'') ''Second''"
proof -
  have p: "plain_name (''song'' @ ''.mp3'')" by (simp add: plain_name_def slash_def)
  have j: "getOutputPath (\<lambda>t. ''song'') ''music'' t ''.mp3'' = ''music/song.mp3''" for t
    unfolding getOutputPath_def by code_simp
  show ?thesis
    using p j getOutputPath_injective [of "\<lambda>t. ''song''" "''First''" "''.mp3''" "''Second''" "''music''"]
    by simp
qed

end
