(* ===== verification/Filesystem.thy ===== *)
theory Filesystem
  imports Paths
begin

text \<open>
  The part of the file system that \<open>src/src/downloader.ts\<close> touches through
  \<open>node:fs\<close>: directory entries that name inodes (so that a write stream keeps
  writing to the file it opened even after its name is unlinked or reused), the
  inodes' contents, and the set of directories.  The operations are those the
  code calls: \<open>existsSync\<close> and \<open>mkdir(..., {recursive: true})\<close> (lines 55--56),
  the open with truncation that \<open>createWriteStream\<close> performs (line 69), the
  positional writes of the write stream (line 76), and \<open>unlink\<close> (line 81).
  Paths are compared as the strings the code builds.
\<close>

record fs =
  entries :: "path \<rightharpoonup> nat"
  inodes :: "nat \<rightharpoonup> bytes"
  next_ino :: nat
  dirs :: "path set"

text \<open>\<open>open(path, 'w')\<close>: truncate the file the path names, or create a new inode.\<close>

definition fs_open_trunc :: "path \<Rightarrow> fs \<Rightarrow> nat \<times> fs" where
  "fs_open_trunc p s =
     (case entries s p of
        Some i \<Rightarrow> (i, s\<lparr>inodes := (inodes s)(i \<mapsto> [])\<rparr>)
      | None \<Rightarrow> (next_ino s, s\<lparr>entries := (entries s)(p \<mapsto> next_ino s),
                               inodes := (inodes s)(next_ino s \<mapsto> []),
                               next_ino := Suc (next_ino s)\<rparr>))"

text \<open>A write of \<open>d\<close> at offset \<open>pos\<close>; a gap past the end reads as zero bytes.\<close>

definition write_at :: "nat \<Rightarrow> bytes \<Rightarrow> bytes \<Rightarrow> bytes" where
  "write_at pos d old =
     take pos old @ replicate (pos - length old) (CHR 0x00) @ d @ drop (pos + length d) old"

definition fs_write :: "nat \<Rightarrow> nat \<Rightarrow> bytes \<Rightarrow> fs \<Rightarrow> fs" where
  "fs_write i pos d s =
     (case inodes s i of
        None \<Rightarrow> s
      | Some old \<Rightarrow> s\<lparr>inodes := (inodes s)(i \<mapsto> write_at pos d old)\<rparr>)"

definition enoent :: jsval where
  "enoent = JsError ''ENOENT: no such file or directory''"

text \<open>\<open>fs.unlink\<close>: removes the name; the inode stays with whoever has it open.\<close>

definition fs_unlink :: "path \<Rightarrow> fs \<Rightarrow> jsval option \<times> fs" where
  "fs_unlink p s =
     (case entries s p of
        None \<Rightarrow> (Some enoent, s)
      | Some i \<Rightarrow> (None, s\<lparr>entries := (entries s)(p := None)\<rparr>))"

text \<open>The content a path names, if any.\<close>

definition file_at :: "fs \<Rightarrow> path \<Rightarrow> bytes option" where
  "file_at s p = (case entries s p of None \<Rightarrow> None | Some i \<Rightarrow> inodes s i)"

definition existsSync :: "fs \<Rightarrow> path \<Rightarrow> bool" where
  "existsSync s p \<longleftrightarrow> p \<in> dirs s \<or> entries s p \<noteq> None"

text \<open>The folders \<open>mkdir -p\<close> creates for a path: each prefix that ends before a slash, then the path.\<close>

definition ancestors :: "path \<Rightarrow> path list" where
  "ancestors p =
     filter (\<lambda>q. q \<noteq> [] \<and> q \<noteq> [slash]) (map (\<lambda>i. take i p) (filter (\<lambda>i. p ! i = slash) [0..<length p]))
     @ [p]"

definition enotdir :: jsval where
  "enotdir = JsError ''ENOTDIR: not a directory''"

definition fs_mkdir_recursive :: "path \<Rightarrow> fs \<Rightarrow> jsval + fs" where
  "fs_mkdir_recursive p s =
     (if list_ex (\<lambda>a. entries s a \<noteq> None) (ancestors p) then Inl enotdir
      else Inr (s\<lparr>dirs := dirs s \<union> set (ancestors p)\<rparr>))"

text \<open>Well-formedness: every entry names an allocated inode, and inodes are below \<open>next_ino\<close>.\<close>

definition fs_wf :: "fs \<Rightarrow> bool" where
  "fs_wf s \<longleftrightarrow>
     (\<forall>p i. entries s p = Some i \<longrightarrow> inodes s i \<noteq> None) \<and>
     (\<forall>i. inodes s i \<noteq> None \<longrightarrow> i < next_ino s)"

subsection \<open>Lemmas\<close>

lemma write_at_end [simp]: "write_at (length old) d old = old @ d"
  by (simp add: write_at_def)

lemma fs_open_trunc_wf:
  "fs_wf s \<Longrightarrow> fs_open_trunc p s = (i, s') \<Longrightarrow> fs_wf s' \<and> inodes s' i = Some [] \<and> entries s' p = Some i"
  by (auto simp: fs_wf_def fs_open_trunc_def less_Suc_eq split: option.splits if_splits)

lemma fs_write_wf: "fs_wf s \<Longrightarrow> fs_wf (fs_write i pos d s)"
  by (auto simp: fs_wf_def fs_write_def split: option.splits)

lemma fs_unlink_wf: "fs_wf s \<Longrightarrow> fs_wf (snd (fs_unlink p s))"
  by (auto simp: fs_wf_def fs_unlink_def split: option.splits)

lemma fs_unlink_removes [simp]: "entries (snd (fs_unlink p s)) p = None"
  by (simp add: fs_unlink_def split: option.splits)

lemma fs_unlink_other: "q \<noteq> p \<Longrightarrow> entries (snd (fs_unlink p s)) q = entries s q"
  by (simp add: fs_unlink_def split: option.splits)

lemma fs_write_entries [simp]: "entries (fs_write i pos d s) = entries s"
  by (simp add: fs_write_def split: option.splits)

lemma fs_write_inode_other: "j \<noteq> i \<Longrightarrow> inodes (fs_write i pos d s) j = inodes s j"
  by (simp add: fs_write_def split: option.splits)

lemma fs_write_inode_same:
  "inodes s i = Some old \<Longrightarrow> inodes (fs_write i pos d s) i = Some (write_at pos d old)"
  by (simp add: fs_write_def)

lemma fs_unlink_inodes [simp]: "inodes (snd (fs_unlink p s)) = inodes s"
  by (simp add: fs_unlink_def split: option.splits)

lemma fs_mkdir_entries: "fs_mkdir_recursive p s = Inr s' \<Longrightarrow> entries s' = entries s"
  by (auto simp: fs_mkdir_recursive_def split: if_splits)

lemma ancestors_last: "p \<in> set (ancestors p)"
  by (simp add: ancestors_def)

lemma fs_mkdir_exists: "fs_mkdir_recursive p s = Inr s' \<Longrightarrow> existsSync s' p"
  by (auto simp: fs_mkdir_recursive_def existsSync_def ancestors_last split: if_splits)

end
