(* ===== verification/Report.thy ===== *)
theory Report
  imports Prelude
begin

text \<open>
  The reporting step of \<open>src/src/downloader.ts\<close>: the shapes of a playlist item
  (\<open>PlaylistItem\<close>, lines 14--25, with the \<open>shortUrl\<close> field that line 104 reads
  although the interface does not declare it) and of a download result
  (\<open>DownloadResult\<close>, lines 27--30), and \<open>logResults\<close> (lines 110--122), which
  prints the summary.  The spec's Run Report (totalCount, successCount, the
  ordered failures) is stated as an abstract record, and the printed lines are
  shown to be the rendering of that report.
\<close>

record playlist_item =
  item_id :: string
  item_url :: string
  url_simple :: string
  title :: string
  thumbnail :: string
  duration :: "string option"
  author :: "(string \<times> string) option"
  shortUrl :: string

record download_result =
  success :: bool
  error :: "string option"

text \<open>\<open>${result.error}\<close> prints \<open>undefined\<close> when the optional field is absent.\<close>

definition show_error :: "string option \<Rightarrow> string" where
  "show_error e = (case e of None \<Rightarrow> ''undefined'' | Some m \<Rightarrow> m)"

text \<open>Reading \<open>item.title\<close> when \<open>items[index]\<close> was \<open>undefined\<close> throws this \<open>TypeError\<close>.\<close>

definition title_of_undefined :: jsval where
  "title_of_undefined = JsError ''Cannot read properties of undefined (reading 'title')''"

definition newline :: char where
  "newline = CHR 0x0A"

definition failure_line :: "download_result \<Rightarrow> playlist_item \<Rightarrow> channel \<times> string" where
  "failure_line r it = (Stderr, ''- '' @ title it @ '': '' @ show_error (error r))"

text \<open>
  The \<open>for\<close> loop over the failures (lines 118--120): one \<open>console.error\<close> line per
  failure; an \<open>undefined\<close> item throws at \<open>item.title\<close>, after the lines printed so
  far.  The result is the printed lines and the exception, if any.
\<close>

fun failure_loop :: "(download_result \<times> playlist_item option) list \<Rightarrow> console \<times> jsval option" where
  "failure_loop [] = ([], None)"
| "failure_loop ((r, None) # fs) = ([], Some title_of_undefined)"
| "failure_loop ((r, Some it) # fs) =
     (let (ls, e) = failure_loop fs in (failure_line r it # ls, e))"

definition summary_line :: "nat \<Rightarrow> nat \<Rightarrow> channel \<times> string" where
  "summary_line s n = (Stdout, ''Downloaded '' @ show_nat s @ ''/'' @ show_nat n @ '' musics successfully'')"

definition failures_header :: "channel \<times> string" where
  "failures_header = (Stdout, newline # ''Failed Downloads:'')"

text \<open>
  \<open>logResults\<close>: the success count (line 111), the summary line (line 112), the
  failures paired with \<open>items[index]\<close> and filtered (line 114), and, when there
  are failures, the header and the loop (lines 116--121).
\<close>

definition logResults :: "download_result list \<Rightarrow> playlist_item list \<Rightarrow> console \<times> jsval option" where
  "logResults results items =
     (let successCount = length (filter success results);
          l1 = summary_line successCount (length items);
          failures = filter (\<lambda>(r, it). \<not> success r)
                       (map (\<lambda>(r, i). (r, js_nth items i)) (zip results [0..<length results]))
      in if length failures > 0
         then (let (ls, e) = failure_loop failures in (l1 # failures_header # ls, e))
         else ([l1], None))"

subsection \<open>The spec's Run Report\<close>

text \<open>
  The abstract report of the spec (section 3): the number of items, the number
  of successes and the failures as (title, error message) pairs in playlist order.
\<close>

record run_report =
  totalCount :: nat
  successCount :: nat
  failures :: "(string \<times> string option) list"

definition report_of :: "(playlist_item \<times> download_result) list \<Rightarrow> run_report" where
  "report_of ps =
     \<lparr>totalCount = length ps,
      successCount = length (filter (\<lambda>(it, r). success r) ps),
      failures = map (\<lambda>(it, r). (title it, error r)) (filter (\<lambda>(it, r). \<not> success r) ps)\<rparr>"

definition render_report :: "run_report \<Rightarrow> console" where
  "render_report rep =
     summary_line (successCount rep) (totalCount rep) #
     (if failures rep = [] then []
      else failures_header #
           map (\<lambda>(t, e). (Stderr, ''- '' @ t @ '': '' @ show_error e)) (failures rep))"

text \<open>A playlist item with the given title, for the examples below.\<close>

definition sample_item :: "string \<Rightarrow> playlist_item" where
  "sample_item t = \<lparr>item_id = t, item_url = ''https://youtu.be/'' @ t, url_simple = t, title = t,
     thumbnail = '''', duration = None, author = None, shortUrl = ''https://youtu.be/'' @ t\<rparr>"

subsection \<open>Lemmas\<close>

lemma failure_loop_all_defined:
  "failure_loop (map (\<lambda>(r, it). (r, Some it)) ps) = (map (\<lambda>(r, it). failure_line r it) ps, None)"
  by (induction ps) auto

lemma zip_index_js_nth:
  "length rs = length its \<Longrightarrow>
   map (\<lambda>(r, i). (r, js_nth its i)) (zip rs [0..<length rs]) = map (\<lambda>(r, it). (r, Some it)) (zip rs its)"
proof (induction rs its rule: list_induct2)
  case Nil
  then show ?case by simp
next
  case (Cons r rs it its)
  have "map (\<lambda>(r, i). (r, js_nth (it # its) i)) (zip (r # rs) [0..<length (r # rs)])
        = (r, Some it) # map (\<lambda>(r, i). (r, js_nth its i)) (zip rs [0..<length rs])"
    by (auto simp: upt_conv_Cons map_Suc_upt [symmetric] zip_map2 comp_def split: prod.splits simp del: upt_Suc)
  with Cons.IH show ?case by simp
qed

lemma filter_map_Some:
  "filter (\<lambda>(r, it). \<not> success r) (map (\<lambda>(r, it). (r, Some it)) ps)
   = map (\<lambda>(r, it). (r, Some it)) (filter (\<lambda>(r, it). \<not> success r) ps)"
  by (induction ps) auto

lemma length_filter_success_zip:
  "length rs = length its \<Longrightarrow>
   length (filter (\<lambda>(it, r). success r) (zip its rs)) = length (filter success rs)"
proof (induction rs its rule: list_induct2)
  case (Cons r rs it its)
  then show ?case by simp
qed simp

lemma failures_zip_swap:
  "map (\<lambda>(r, it). failure_line r it) (filter (\<lambda>(r, it). \<not> success r) (zip rs its))
   = map (\<lambda>(t, e). (Stderr, ''- '' @ t @ '': '' @ show_error e))
       (map (\<lambda>(it, r). (title it, error r)) (filter (\<lambda>(it, r). \<not> success r) (zip its rs)))"
proof (induction rs arbitrary: its)
  case (Cons r rs)
  then show ?case by (cases its) (auto simp: failure_line_def)
qed simp

lemma failures_nonempty_iff:
  "(0 < length (filter (\<lambda>(r, it). \<not> success r) ps)) = (filter (\<lambda>(r, it). \<not> success r) ps \<noteq> [])"
  by simp

lemma filter_failed_zip_swap_empty:
  fixes rs :: "download_result list" and its :: "playlist_item list"
  shows "(filter (\<lambda>(r, it). \<not> success r) (zip rs its) = [])
   = (filter (\<lambda>(it, r). \<not> success r) (zip its rs) = [])"
proof (induction rs arbitrary: its)
  case (Cons r rs)
  then show ?case by (cases its) auto
qed simp

lemma logResults_render:
  assumes "length results = length items"
  shows "logResults results items = (render_report (report_of (zip items results)), None)"
proof -
  let ?ps = "zip results items"
  have idx: "map (\<lambda>(r, i). (r, js_nth items i)) (zip results [0..<length results])
             = map (\<lambda>(r, it). (r, Some it)) ?ps"
    using assms by (rule zip_index_js_nth)
  have cnt: "length (filter (\<lambda>(it, r). success r) (zip items results)) = length (filter success results)"
    using assms by (rule length_filter_success_zip)
  have sw: "map (\<lambda>(r, it). failure_line r it) (filter (\<lambda>(r, it). \<not> success r) ?ps)
   = map (\<lambda>(t, e). (Stderr, ''- '' @ t @ '': '' @ show_error e))
       (map (\<lambda>(it, r). (title it, error r)) (filter (\<lambda>(it, r). \<not> success r) (zip items results)))"
    by (rule failures_zip_swap)
  have em: "(filter (\<lambda>(r, it). \<not> success r) ?ps = [])
   = (filter (\<lambda>(it, r). \<not> success r) (zip items results) = [])"
    by (rule filter_failed_zip_swap_empty)
  show ?thesis
    unfolding logResults_def Let_def idx filter_map_Some failure_loop_all_defined
    unfolding render_report_def report_of_def run_report.simps
    by (simp add: sw em cnt assms)
qed

text \<open>C4: for results as many as the items, the printed summary is the rendering of
  the spec's Run Report built from the items zipped with their results, in playlist
  order, and printing raises no exception.\<close>

theorem logResults_refines_report:
  assumes "length results = length items"
  shows "logResults results items = (render_report (report_of (zip items results)), None)"
  using assms by (rule logResults_render)

theorem logResults_refines_report_witness:
  "length [\<lparr>success = True, error = None\<rparr>, \<lparr>success = False, error = Some ''boom''\<rparr>, \<lparr>success = True, error = None\<rparr>]
     = length [sample_item ''A'', sample_item ''B'', sample_item ''C''] \<and>
   logResults [\<lparr>success = True, error = None\<rparr>, \<lparr>success = False, error = Some ''boom''\<rparr>, \<lparr>success = True, error = None\<rparr>]
              [sample_item ''A'', sample_item ''B'', sample_item ''C'']
   = ([(Stdout, ''Downloaded 2/3 musics successfully''), failures_header, (Stderr, ''- B: boom'')], None)"
proof -
  let ?rs = "[\<lparr>success = True, error = None\<rparr>, \<lparr>success = False, error = Some ''boom''\<rparr>, \<lparr>success = True, error = None\<rparr>]"
  let ?its = "[sample_item ''A'', sample_item ''B'', sample_item ''C'']"
  have len: "length ?rs = length ?its" by simp
  have "logResults ?rs ?its = (render_report (report_of (zip ?its ?rs)), None)"
    using len by (rule logResults_refines_report)
  also have "\<dots> = ([(Stdout, ''Downloaded 2/3 musics successfully''), failures_header, (Stderr, ''- B: boom'')], None)"
    by code_simp
  finally show ?thesis using len by simp
qed

lemma failure_loop_length: "length (fst (failure_loop ps)) \<le> length ps"
  by (induction ps rule: failure_loop.induct) (auto split: prod.splits)

text \<open>C5: \<open>logResults\<close> prints at least the summary line and at most two lines more
  than there are results (summary, header, one line per failure).\<close>

theorem logResults_output_bounds:
  "1 \<le> length (fst (logResults results items)) \<and> length (fst (logResults results items)) \<le> length results + 2"
proof -
  let ?fs = "filter (\<lambda>(r, it). \<not> success r) (map (\<lambda>(r, i). (r, js_nth items i)) (zip results [0..<length results]))"
  have "length ?fs \<le> length results"
    using length_filter_le [of "\<lambda>(r, it). \<not> success r" "map (\<lambda>(r, i). (r, js_nth items i)) (zip results [0..<length results])"]
    by simp
  then have "length (fst (failure_loop ?fs)) \<le> length results" using failure_loop_length [of ?fs] by linarith
  then show ?thesis by (auto simp: logResults_def Let_def split: prod.splits)
qed

end
