(* ===== verification/Download.thy ===== *)
theory Download
  imports Filesystem Report
begin

text \<open>
  \<open>downloadSingle\<close> (lines 64--88 of \<open>src/src/downloader.ts\<close>).  The promise of
  lines 68--77 creates a write stream on the output path, a \<open>ytdl\<close> read stream,
  installs three handlers (read \<open>error\<close>, write \<open>error\<close>, write \<open>finish\<close>) and
  pipes one into the other.  What the two streams do is the environment's
  choice and is given as a script \<open>dl_env\<close>: whether the executor throws
  synchronously, and the list of stream events in the order they happen.  The
  code's reaction is modelled as a small machine \<open>dl_task\<close> with two kinds of
  steps, so that the system theory can interleave the steps of many downloads:
  \<^item> \<open>dl_event\<close>: the next event happens; \<open>Opened\<close> and \<open>Chunk\<close> are the write
    stream's effect on the file system (the open with truncation, then the
    writes at the stream's position, data written before the open being
    buffered), and the first \<open>Finish\<close>, \<open>ReadFail\<close> or \<open>WriteFail\<close> settles the
    promise (later settling events are ignored, as a settled promise ignores
    them);
  \<^item> \<open>dl_unlink\<close>: after a rejection, the catch block's \<open>fs.unlink\<close> (line 81)
    completes, its error ignored, and the function returns the failure result
    (lines 82--85).
  A resolution returns \<open>{success: true}\<close> at once (line 79).
\<close>

datatype stream_event = Opened | Chunk bytes | ReadFail jsval | WriteFail jsval | Finish

record dl_env =
  sync_throw :: "jsval option"
  events :: "stream_event list"

datatype settlement = Resolved | Rejected jsval

datatype dl_phase = Piping | Unlinking jsval | Returned download_result

record dl_task =
  out_path :: path
  ws_fd :: "nat option"
  ws_pos :: nat
  ws_buf :: bytes
  pending :: "stream_event list"
  phase :: dl_phase

text \<open>Lines 80--85: the message of an \<open>Error\<close>, otherwise \<open>'Unknown error'\<close>.\<close>

definition error_message :: "jsval \<Rightarrow> string" where
  "error_message v = (case v of JsError m \<Rightarrow> m | JsOther \<Rightarrow> ''Unknown error'')"

definition success_result :: download_result where
  "success_result = \<lparr>success = True, error = None\<rparr>"

definition failure_result :: "jsval \<Rightarrow> download_result" where
  "failure_result v = \<lparr>success = False, error = Some (error_message v)\<rparr>"

text \<open>
  Lines 65--76 up to the first event: the output path, a write stream not yet
  open, the pending events; a synchronous throw of \<open>createWriteStream\<close> or
  \<open>ytdl\<close> rejects the promise at once.
\<close>

definition downloadSingle_start :: "path \<Rightarrow> dl_env \<Rightarrow> dl_task" where
  "downloadSingle_start p env =
     \<lparr>out_path = p, ws_fd = None, ws_pos = 0, ws_buf = [], pending = events env,
      phase = (case sync_throw env of Some v \<Rightarrow> Unlinking v | None \<Rightarrow> Piping)\<rparr>"

text \<open>The write stream's effect of an event on the file system (line 76, \<open>pipe\<close>).\<close>

fun ws_effect :: "stream_event \<Rightarrow> dl_task \<times> fs \<Rightarrow> dl_task \<times> fs" where
  "ws_effect Opened (t, s) =
     (let (i, s') = fs_open_trunc (out_path t) s
      in (t\<lparr>ws_fd := Some i, ws_pos := length (ws_buf t), ws_buf := []\<rparr>, fs_write i 0 (ws_buf t) s'))"
| "ws_effect (Chunk d) (t, s) =
     (case ws_fd t of
        None \<Rightarrow> (t\<lparr>ws_buf := ws_buf t @ d\<rparr>, s)
      | Some i \<Rightarrow> (t\<lparr>ws_pos := ws_pos t + length d\<rparr>, fs_write i (ws_pos t) d s))"
| "ws_effect (ReadFail v) ts = ts"
| "ws_effect (WriteFail v) ts = ts"
| "ws_effect Finish ts = ts"

text \<open>The three handlers of lines 72--74 on a promise still pending.\<close>

fun settle_phase :: "stream_event \<Rightarrow> dl_phase \<Rightarrow> dl_phase" where
  "settle_phase Finish Piping = Returned success_result"
| "settle_phase (ReadFail v) Piping = Unlinking v"
| "settle_phase (WriteFail v) Piping = Unlinking v"
| "settle_phase e ph = ph"

definition dl_event :: "dl_task \<times> fs \<Rightarrow> (dl_task \<times> fs) option" where
  "dl_event ts =
     (case pending (fst ts) of
        [] \<Rightarrow> None
      | e # es \<Rightarrow> (let (t, s) = ws_effect e ts
                   in Some (t\<lparr>pending := es, phase := settle_phase e (phase t)\<rparr>, s)))"

definition dl_unlink :: "dl_task \<times> fs \<Rightarrow> (dl_task \<times> fs) option" where
  "dl_unlink ts =
     (case phase (fst ts) of
        Unlinking v \<Rightarrow> Some ((fst ts)\<lparr>phase := Returned (failure_result v)\<rparr>,
                            snd (fs_unlink (out_path (fst ts)) (snd ts)))
      | _ \<Rightarrow> None)"

datatype dl_action = Ev | Unlink

fun dl_step :: "dl_action \<Rightarrow> dl_task \<times> fs \<Rightarrow> (dl_task \<times> fs) option" where
  "dl_step Ev ts = dl_event ts"
| "dl_step Unlink ts = dl_unlink ts"

text \<open>A download run alone under a schedule of its actions; \<open>None\<close> when an action is not enabled.\<close>

fun dl_run :: "dl_action list \<Rightarrow> dl_task \<times> fs \<Rightarrow> (dl_task \<times> fs) option" where
  "dl_run [] ts = Some ts"
| "dl_run (a # as) ts = (case dl_step a ts of None \<Rightarrow> None | Some ts' \<Rightarrow> dl_run as ts')"

subsection \<open>What the promise settles to\<close>

text \<open>The first settling event of a script decides the outcome.\<close>

fun first_settle :: "stream_event list \<Rightarrow> settlement option" where
  "first_settle [] = None"
| "first_settle (Finish # es) = Some Resolved"
| "first_settle (ReadFail v # es) = Some (Rejected v)"
| "first_settle (WriteFail v # es) = Some (Rejected v)"
| "first_settle (Opened # es) = first_settle es"
| "first_settle (Chunk d # es) = first_settle es"

definition expected_settle :: "dl_env \<Rightarrow> settlement option" where
  "expected_settle env =
     (case sync_throw env of Some v \<Rightarrow> Some (Rejected v) | None \<Rightarrow> first_settle (events env))"

definition outcome :: "settlement \<Rightarrow> download_result" where
  "outcome st = (case st of Resolved \<Rightarrow> success_result | Rejected v \<Rightarrow> failure_result v)"

text \<open>The invariant of a download: its phase agrees with the settlement its script determines.\<close>

definition dl_inv :: "dl_env \<Rightarrow> dl_task \<Rightarrow> bool" where
  "dl_inv env t \<longleftrightarrow>
     (case phase t of
        Piping \<Rightarrow> expected_settle env = first_settle (pending t)
      | Unlinking v \<Rightarrow> expected_settle env = Some (Rejected v)
      | Returned r \<Rightarrow> (\<exists>st. expected_settle env = Some st \<and> r = outcome st))"

text \<open>The schedule that lets every event happen and then, after a rejection, the unlink complete.\<close>

definition dl_schedule :: "dl_env \<Rightarrow> dl_action list" where
  "dl_schedule env =
     replicate (length (events env)) Ev @
     (case expected_settle env of Some (Rejected v) \<Rightarrow> [Unlink] | _ \<Rightarrow> [])"

text \<open>The data a script pipes into the file.\<close>

fun chunks_of :: "stream_event list \<Rightarrow> bytes" where
  "chunks_of [] = []"
| "chunks_of (Chunk d # es) = d @ chunks_of es"
| "chunks_of (e # es) = chunks_of es"

subsection \<open>Lemmas\<close>

lemma ws_effect_path [simp]: "out_path (fst (ws_effect e ts)) = out_path (fst ts)"
  by (cases ts, cases e) (auto simp: Let_def split: prod.splits option.splits)

lemma ws_effect_pending [simp]: "pending (fst (ws_effect e ts)) = pending (fst ts)"
  by (cases ts, cases e) (auto simp: Let_def split: prod.splits option.splits)

lemma ws_effect_phase [simp]: "phase (fst (ws_effect e ts)) = phase (fst ts)"
  by (cases ts, cases e) (auto simp: Let_def split: prod.splits option.splits)

lemma dl_event_Nil: "pending t = [] \<Longrightarrow> dl_event (t, s) = None"
  by (simp add: dl_event_def)

lemma dl_event_Cons:
  "pending t = e # es \<Longrightarrow>
   dl_event (t, s) = Some ((fst (ws_effect e (t, s)))\<lparr>pending := es, phase := settle_phase e (phase t)\<rparr>,
                          snd (ws_effect e (t, s)))"
  by (simp add: dl_event_def split_def Let_def)

lemma dl_inv_cong: "phase t' = phase t \<Longrightarrow> pending t' = pending t \<Longrightarrow> dl_inv env t' = dl_inv env t"
  by (simp add: dl_inv_def split: dl_phase.splits)

lemma dl_inv_start: "dl_inv env (downloadSingle_start p env)"
  by (simp add: dl_inv_def downloadSingle_start_def expected_settle_def split: option.splits)

lemma settle_phase_inv:
  "dl_inv env t \<Longrightarrow> pending t = e # es \<Longrightarrow>
   dl_inv env (t\<lparr>pending := es, phase := settle_phase e (phase t)\<rparr>)"
  by (cases e; cases "phase t") (auto simp: dl_inv_def outcome_def)

lemma dl_event_inv: "dl_event (t, s) = Some (t', s') \<Longrightarrow> dl_inv env t \<Longrightarrow> dl_inv env t'"
proof (cases "pending t")
  case Nil
  assume "dl_event (t, s) = Some (t', s')"
  with Nil show ?thesis by (simp add: dl_event_Nil)
next
  case (Cons e es)
  assume ev: "dl_event (t, s) = Some (t', s')" and inv: "dl_inv env t"
  have "dl_inv env (t\<lparr>pending := es, phase := settle_phase e (phase t)\<rparr>)"
    using inv Cons by (rule settle_phase_inv)
  moreover have "phase t' = settle_phase e (phase t)" "pending t' = es"
    using ev by (auto simp: dl_event_Cons [OF Cons])
  ultimately show ?thesis
    using dl_inv_cong [of t' "t\<lparr>pending := es, phase := settle_phase e (phase t)\<rparr>" env] by simp
qed

lemma dl_unlink_inv: "dl_unlink (t, s) = Some (t', s') \<Longrightarrow> dl_inv env t \<Longrightarrow> dl_inv env t'"
  by (auto simp: dl_unlink_def dl_inv_def outcome_def split: dl_phase.splits)

lemma dl_step_inv: "dl_step a (t, s) = Some (t', s') \<Longrightarrow> dl_inv env t \<Longrightarrow> dl_inv env t'"
  by (cases a) (auto intro: dl_event_inv dl_unlink_inv)

lemma dl_run_inv: "dl_run as (t, s) = Some (t', s') \<Longrightarrow> dl_inv env t \<Longrightarrow> dl_inv env t'"
proof (induction as arbitrary: t s)
  case (Cons a as)
  then show ?case
    by (auto split: option.splits intro: dl_step_inv)
qed simp

lemma dl_run_append:
  "dl_run (xs @ ys) ts = (case dl_run xs ts of None \<Rightarrow> None | Some ts' \<Rightarrow> dl_run ys ts')"
  by (induction xs arbitrary: ts) (auto split: option.splits)

lemma settle_phase_not_Piping: "ph \<noteq> Piping \<Longrightarrow> settle_phase e ph = ph"
  by (cases e; cases ph) auto

lemma foldl_settle_not_Piping:
  "ph \<noteq> Piping \<Longrightarrow> foldl (\<lambda>ph e. settle_phase e ph) ph es = ph"
  by (induction es) (simp_all add: settle_phase_not_Piping)

lemma foldl_settle_Piping:
  "first_settle es = Some st \<Longrightarrow>
   foldl (\<lambda>ph e. settle_phase e ph) Piping es
   = (case st of Resolved \<Rightarrow> Returned success_result | Rejected v \<Rightarrow> Unlinking v)"
  by (induction es rule: first_settle.induct) (auto simp: foldl_settle_not_Piping)

lemma foldl_settle_None:
  "first_settle es = None \<Longrightarrow> foldl (\<lambda>ph e. settle_phase e ph) Piping es = Piping"
  by (induction es rule: first_settle.induct) auto

lemma dl_run_events:
  "pending t = es \<Longrightarrow>
   \<exists>t' s'. dl_run (replicate (length es) Ev) (t, s) = Some (t', s') \<and> pending t' = [] \<and>
           phase t' = foldl (\<lambda>ph e. settle_phase e ph) (phase t) es \<and> out_path t' = out_path t"
proof (induction es arbitrary: t s)
  case Nil
  then show ?case by simp
next
  case (Cons e es)
  let ?t1 = "(fst (ws_effect e (t, s)))\<lparr>pending := es, phase := settle_phase e (phase t)\<rparr>"
  let ?s1 = "snd (ws_effect e (t, s))"
  have ev: "dl_event (t, s) = Some (?t1, ?s1)" using Cons.prems by (rule dl_event_Cons)
  have "pending ?t1 = es" by simp
  then obtain t' s' where run: "dl_run (replicate (length es) Ev) (?t1, ?s1) = Some (t', s')"
    and props: "pending t' = []" "phase t' = foldl (\<lambda>ph e. settle_phase e ph) (phase ?t1) es"
               "out_path t' = out_path ?t1"
    using Cons.IH by blast
  show ?case
    using ev run props by auto
qed

lemma dl_inv_Returned:
  "dl_inv env t \<Longrightarrow> phase t = Returned r \<Longrightarrow> \<exists>st. expected_settle env = Some st \<and> r = outcome st"
  by (simp add: dl_inv_def)

lemma dl_unlink_Unlinking:
  "phase t = Unlinking v \<Longrightarrow>
   dl_unlink (t, s) = Some (t\<lparr>phase := Returned (failure_result v)\<rparr>, snd (fs_unlink (out_path t) s))"
  by (simp add: dl_unlink_def)

lemma phase_start:
  "phase (downloadSingle_start p env) = (case sync_throw env of Some v \<Rightarrow> Unlinking v | None \<Rightarrow> Piping)"
  "pending (downloadSingle_start p env) = events env"
  "out_path (downloadSingle_start p env) = p"
  by (simp_all add: downloadSingle_start_def)

lemma chunks_of_append: "chunks_of (xs @ ys) = chunks_of xs @ chunks_of ys"
  by (induction xs rule: chunks_of.induct) auto

lemma dl_run_Ev_Cons:
  "dl_run (Ev # as) (t, s) = (case dl_event (t, s) of None \<Rightarrow> None | Some ts' \<Rightarrow> dl_run as ts')"
  by simp

lemma ws_effect_unopened:
  "e \<noteq> Opened \<Longrightarrow> ws_fd t = None \<Longrightarrow> ws_effect e (t, s) = (t\<lparr>ws_buf := ws_buf t @ chunks_of [e]\<rparr>, s)"
  by (cases e) auto

lemma ws_effect_opened:
  assumes "e \<noteq> Opened" "ws_fd t = Some i" "inodes s i = Some w" "ws_pos t = length w"
  shows "fst (ws_effect e (t, s)) = t\<lparr>ws_pos := length (w @ chunks_of [e])\<rparr> \<and>
         inodes (snd (ws_effect e (t, s))) i = Some (w @ chunks_of [e]) \<and>
         entries (snd (ws_effect e (t, s))) = entries s"
  using assms by (cases e) (auto simp: fs_write_inode_same)

text \<open>Events other than the open, before the write stream is open: the data are buffered.\<close>

lemma dl_run_unopened:
  "Opened \<notin> set es \<Longrightarrow> ws_fd t = None \<Longrightarrow> pending t = es @ rest \<Longrightarrow>
   \<exists>t'. dl_run (replicate (length es) Ev) (t, s) = Some (t', s) \<and> ws_fd t' = None \<and>
         ws_buf t' = ws_buf t @ chunks_of es \<and> pending t' = rest \<and> out_path t' = out_path t \<and>
         phase t' = foldl (\<lambda>ph e. settle_phase e ph) (phase t) es"
proof (induction es arbitrary: t)
  case Nil
  then show ?case by simp
next
  case (Cons e es)
  let ?t1 = "t\<lparr>ws_buf := ws_buf t @ chunks_of [e], pending := es @ rest, phase := settle_phase e (phase t)\<rparr>"
  have e: "e \<noteq> Opened" using Cons.prems by (cases "e = Opened") simp_all
  have ev: "dl_event (t, s) = Some (?t1, s)"
    using Cons.prems by (simp add: dl_event_Cons ws_effect_unopened [OF e])
  obtain t' where "dl_run (replicate (length es) Ev) (?t1, s) = Some (t', s)" "ws_fd t' = None"
    "ws_buf t' = ws_buf ?t1 @ chunks_of es" "pending t' = rest" "out_path t' = out_path t"
    "phase t' = foldl (\<lambda>ph e. settle_phase e ph) (phase ?t1) es"
    using Cons.IH [of ?t1] Cons.prems by auto
  then show ?case using ev chunks_of_append [of "[e]" es] by auto
qed

text \<open>Events other than the open, once the write stream is open on inode \<open>i\<close>: appends.\<close>

lemma dl_run_opened:
  "Opened \<notin> set es \<Longrightarrow> ws_fd t = Some i \<Longrightarrow> inodes s i = Some w \<Longrightarrow> ws_pos t = length w \<Longrightarrow>
   pending t = es @ rest \<Longrightarrow>
   \<exists>t' s'. dl_run (replicate (length es) Ev) (t, s) = Some (t', s') \<and> ws_fd t' = Some i \<and>
           inodes s' i = Some (w @ chunks_of es) \<and> entries s' = entries s \<and> pending t' = rest \<and>
           out_path t' = out_path t \<and> phase t' = foldl (\<lambda>ph e. settle_phase e ph) (phase t) es"
proof (induction es arbitrary: t s w)
  case Nil
  then show ?case by simp
next
  case (Cons e es)
  let ?w1 = "w @ chunks_of [e]"
  let ?t1 = "t\<lparr>ws_pos := length ?w1, pending := es @ rest, phase := settle_phase e (phase t)\<rparr>"
  let ?s1 = "snd (ws_effect e (t, s))"
  have e: "e \<noteq> Opened" using Cons.prems by (cases "e = Opened") simp_all
  have eff: "fst (ws_effect e (t, s)) = t\<lparr>ws_pos := length ?w1\<rparr>" "inodes ?s1 i = Some ?w1"
            "entries ?s1 = entries s"
    using ws_effect_opened [OF e] Cons.prems by auto
  have ev: "dl_event (t, s) = Some (?t1, ?s1)"
    using Cons.prems eff by (simp add: dl_event_Cons)
  obtain t' s' where "dl_run (replicate (length es) Ev) (?t1, ?s1) = Some (t', s')" "ws_fd t' = Some i"
    "inodes s' i = Some (?w1 @ chunks_of es)" "entries s' = entries ?s1" "pending t' = rest"
    "out_path t' = out_path t" "phase t' = foldl (\<lambda>ph e. settle_phase e ph) (phase ?t1) es"
    using Cons.IH [of ?t1 ?s1 ?w1] Cons.prems eff by auto
  then show ?case using ev eff chunks_of_append [of "[e]" es] by auto
qed

lemma fs_open_trunc_props:
  "fs_open_trunc p s = (i, s') \<Longrightarrow> inodes s' i = Some [] \<and> entries s' p = Some i"
  by (auto simp: fs_open_trunc_def split: option.splits)

text \<open>C3: under any schedule of its actions (so whatever else happens in between), a
  download that returns has returned the outcome of the first settling event of its
  script: success on a first finish, otherwise the failure carrying the rejection's message.\<close>

theorem downloadSingle_result:
  assumes "dl_run as (downloadSingle_start p env, s) = Some (t', s')"
      and "phase t' = Returned r"
  shows "\<exists>st. expected_settle env = Some st \<and> r = outcome st"
proof -
  have "dl_inv env t'"
    using assms(1) dl_inv_start by (rule dl_run_inv)
  then show ?thesis using assms(2) by (rule dl_inv_Returned)
qed

text \<open>C15: a download whose script settles returns: the schedule that lets all its events
  happen and then completes the unlink of a rejection ends with the outcome of the
  settlement.\<close>

theorem downloadSingle_terminates:
  assumes "expected_settle env = Some st"
  shows "\<exists>t' s'. dl_run (dl_schedule env) (downloadSingle_start p env, s) = Some (t', s') \<and>
                phase t' = Returned (outcome st)"
proof -
  let ?t0 = "downloadSingle_start p env"
  obtain t1 s1 where run1: "dl_run (replicate (length (events env)) Ev) (?t0, s) = Some (t1, s1)"
    and ph1: "phase t1 = foldl (\<lambda>ph e. settle_phase e ph) (phase ?t0) (events env)"
    using dl_run_events [of ?t0 "events env" s] by (auto simp: phase_start)
  show ?thesis
  proof (cases "sync_throw env")
    case (Some v)
    with assms have st: "st = Rejected v" by (simp add: expected_settle_def)
    have "phase t1 = Unlinking v" using ph1 Some by (simp add: phase_start foldl_settle_not_Piping)
    then show ?thesis
      using run1 assms st
      by (simp add: dl_schedule_def dl_run_append dl_unlink_Unlinking outcome_def)
  next
    case None
    with assms have fs: "first_settle (events env) = Some st" by (simp add: expected_settle_def)
    then have "phase t1 = (case st of Resolved \<Rightarrow> Returned success_result | Rejected v \<Rightarrow> Unlinking v)"
      using ph1 None by (simp add: phase_start foldl_settle_Piping)
    then show ?thesis
      using run1 assms
      by (cases st) (simp_all add: dl_schedule_def dl_run_append dl_unlink_Unlinking outcome_def)
  qed
qed

theorem downloadSingle_terminates_witness:
  "expected_settle \<lparr>sync_throw = None, events = [Chunk ''x'', WriteFail (JsError ''EACCES''), Opened]\<rparr>
     = Some (Rejected (JsError ''EACCES'')) \<and>
   (\<exists>t' s'. dl_run (dl_schedule \<lparr>sync_throw = None, events = [Chunk ''x'', WriteFail (JsError ''EACCES''), Opened]\<rparr>)
              (downloadSingle_start ''o/a'' \<lparr>sync_throw = None, events = [Chunk ''x'', WriteFail (JsError ''EACCES''), Opened]\<rparr>,
               \<lparr>entries = Map.empty, inodes = Map.empty, next_ino = 0, dirs = {}\<rparr>) = Some (t', s') \<and>
            phase t' = Returned (outcome (Rejected (JsError ''EACCES''))))"
proof -
  let ?env = "\<lparr>sync_throw = None, events = [Chunk ''x'', WriteFail (JsError ''EACCES''), Opened]\<rparr>"
  have e: "expected_settle ?env = Some (Rejected (JsError ''EACCES''))"
    by (simp add: expected_settle_def)
  show ?thesis
    using e downloadSingle_terminates [OF e, of "''o/a''" "\<lparr>entries = Map.empty, inodes = Map.empty, next_ino = 0, dirs = {}\<rparr>"]
    by simp
qed

text \<open>C16: the catch block's cleanup: when the unlink of a rejected download completes, no
  file is left at its output path, and the download returns the failure with the
  rejection's message.\<close>

theorem downloadSingle_cleanup:
  assumes "dl_unlink (t, s) = Some (t', s')"
  shows "file_at s' (out_path t) = None \<and> (\<exists>v. phase t = Unlinking v \<and> phase t' = Returned (failure_result v))"
  using assms by (auto simp: dl_unlink_def file_at_def split: dl_phase.splits)

theorem downloadSingle_cleanup_witness:
  "dl_unlink (\<lparr>out_path = ''o/a'', ws_fd = Some 0, ws_pos = 1, ws_buf = [], pending = [],
               phase = Unlinking (JsError ''net'')\<rparr>,
              \<lparr>entries = [''o/a'' \<mapsto> 0], inodes = [0 \<mapsto> ''x''], next_ino = 1, dirs = {}\<rparr>)
   = Some (\<lparr>out_path = ''o/a'', ws_fd = Some 0, ws_pos = 1, ws_buf = [], pending = [],
               phase = Returned (failure_result (JsError ''net''))\<rparr>,
           \<lparr>entries = Map.empty, inodes = [0 \<mapsto> ''x''], next_ino = 1, dirs = {}\<rparr>) \<and>
   file_at \<lparr>entries = Map.empty, inodes = [0 \<mapsto> ''x''], next_ino = 1, dirs = {}\<rparr> ''o/a'' = None"
proof -
  let ?t = "\<lparr>out_path = ''o/a'', ws_fd = Some (0::nat), ws_pos = 1::nat, ws_buf = [], pending = [],
               phase = Unlinking (JsError ''net'')\<rparr>"
  let ?s = "\<lparr>entries = [''o/a'' \<mapsto> 0::nat], inodes = [0 \<mapsto> ''x''], next_ino = 1::nat, dirs = {}\<rparr>"
  let ?t' = "\<lparr>out_path = ''o/a'', ws_fd = Some (0::nat), ws_pos = 1::nat, ws_buf = [], pending = [],
               phase = Returned (failure_result (JsError ''net''))\<rparr>"
  let ?s' = "\<lparr>entries = Map.empty, inodes = [0 \<mapsto> ''x''], next_ino = 1::nat, dirs = {}\<rparr>"
  have u: "dl_unlink (?t, ?s) = Some (?t', ?s')"
    by (simp add: dl_unlink_def fs_unlink_def)
  show ?thesis using u downloadSingle_cleanup [OF u] by simp
qed

text \<open>C28: the cleanup races with the write stream's own asynchronous open.  For every
  script in which the download is rejected before the write stream has opened its file
  (a synchronous throw of \<open>ytdl\<close>, or a read or write error among the events before the
  open), there is a schedule in which the catch block's unlink completes first and finds
  nothing to remove; the open that completes afterwards recreates the file, which then
  holds everything the stream piped, behind a download reported as failed.\<close>

theorem cleanup_races_late_open:
  assumes "events env = pre @ Opened # post" and "Opened \<notin> set pre" and "Opened \<notin> set post"
    and "(case sync_throw env of Some w \<Rightarrow> w = v | None \<Rightarrow> first_settle pre = Some (Rejected v))"
  shows "\<exists>t' s'. dl_run (replicate (length pre) Ev @ Unlink # replicate (Suc (length post)) Ev)
                      (downloadSingle_start p env, s) = Some (t', s') \<and>
                phase t' = Returned (failure_result v) \<and> file_at s' p = Some (chunks_of (events env))"
proof -
  let ?t0 = "downloadSingle_start p env"
  have ph0: "foldl (\<lambda>ph e. settle_phase e ph) (phase ?t0) pre = Unlinking v"
  proof (cases "sync_throw env")
    case None
    then show ?thesis using assms(4) foldl_settle_Piping [of pre "Rejected v"] by (simp add: phase_start)
  next
    case (Some w)
    then show ?thesis using assms(4) foldl_settle_not_Piping [of "Unlinking v" pre] by (simp add: phase_start)
  qed
  obtain t1 where run1: "dl_run (replicate (length pre) Ev) (?t0, s) = Some (t1, s)"
    and t1: "ws_fd t1 = None" "ws_buf t1 = chunks_of pre" "pending t1 = Opened # post" "out_path t1 = p"
            "phase t1 = Unlinking v"
    using dl_run_unopened [of pre ?t0 "Opened # post" s] assms(1,2) ph0 by (auto simp: downloadSingle_start_def)
  let ?t2 = "t1\<lparr>phase := Returned (failure_result v)\<rparr>"
  let ?s2 = "snd (fs_unlink p s)"
  have un: "dl_unlink (t1, s) = Some (?t2, ?s2)" using dl_unlink_Unlinking [OF t1(5)] t1(4) by simp
  obtain i s3 where op: "fs_open_trunc p ?s2 = (i, s3)" by (cases "fs_open_trunc p ?s2")
  have i: "inodes s3 i = Some [] \<and> entries s3 p = Some i" using op by (rule fs_open_trunc_props)
  let ?t4 = "?t2\<lparr>ws_fd := Some i, ws_pos := length (ws_buf t1), ws_buf := [], pending := post\<rparr>"
  let ?s4 = "fs_write i 0 (ws_buf t1) s3"
  have ev: "dl_event (?t2, ?s2) = Some (?t4, ?s4)"
    using t1 op by (simp add: dl_event_Cons)
  have in4: "inodes ?s4 i = Some (chunks_of pre)" using i t1 by (simp add: fs_write_inode_same write_at_def)
  have en4: "entries ?s4 p = Some i" using i by (simp add: fs_write_entries)
  obtain t5 s5 where run2: "dl_run (replicate (length post) Ev) (?t4, ?s4) = Some (t5, s5)"
    and t5: "inodes s5 i = Some (chunks_of pre @ chunks_of post)" "entries s5 = entries ?s4"
            "phase t5 = foldl (\<lambda>ph e. settle_phase e ph) (Returned (failure_result v)) post"
    using dl_run_opened [of post ?t4 i ?s4 "chunks_of pre" "[]"] assms(3) in4 t1 by auto
  have "dl_run (replicate (length pre) Ev @ Unlink # replicate (Suc (length post)) Ev) (?t0, s) = Some (t5, s5)"
    unfolding dl_run_append using run1 un ev run2 by simp
  moreover have "phase t5 = Returned (failure_result v)" using t5(3) foldl_settle_not_Piping by simp
  moreover have "file_at s5 p = Some (chunks_of (events env))"
    using t5(1,2) en4 assms(1) by (simp add: file_at_def chunks_of_append)
  ultimately show ?thesis by blast
qed

theorem cleanup_races_late_open_witness:
  "events \<lparr>sync_throw = None, events = [Chunk ''ab'', ReadFail (JsError ''net''), Opened, Chunk ''cd'']\<rparr>
     = [Chunk ''ab'', ReadFail (JsError ''net'')] @ Opened # [Chunk ''cd''] \<and>
   Opened \<notin> set [Chunk ''ab'', ReadFail (JsError ''net'')] \<and> Opened \<notin> set [Chunk ''cd''] \<and>
   first_settle [Chunk ''ab'', ReadFail (JsError ''net'')] = Some (Rejected (JsError ''net'')) \<and>
   (\<exists>t' s'. dl_run [Ev, Ev, Unlink, Ev, Ev]
              (downloadSingle_start ''out/a.mp3'' \<lparr>sync_throw = None, events = [Chunk ''ab'', ReadFail (JsError ''net''), Opened, Chunk ''cd'']\<rparr>,
               \<lparr>entries = Map.empty, inodes = Map.empty, next_ino = 0, dirs = {''out''}\<rparr>) = Some (t', s') \<and>
            phase t' = Returned (failure_result (JsError ''net'')) \<and> file_at s' ''out/a.mp3'' = Some ''abcd'')"
  using cleanup_races_late_open [of "\<lparr>sync_throw = None, events = [Chunk ''ab'', ReadFail (JsError ''net''), Opened, Chunk ''cd'']\<rparr>"
      "[Chunk ''ab'', ReadFail (JsError ''net'')]" "[Chunk ''cd'']" "JsError ''net''" "''out/a.mp3''"
      "\<lparr>entries = Map.empty, inodes = Map.empty, next_ino = 0, dirs = {''out''}\<rparr>"]
  by (simp add: numeral_2_eq_2)

text \<open>C27: what a download leaves at its path when nothing else touches it: with one open
  event in its script, the file holds all the piped data in order, the data piped before
  the open included (the write stream buffers them).\<close>

theorem downloadSingle_file_content:
  assumes "events env = pre @ Opened # post" and "Opened \<notin> set pre" and "Opened \<notin> set post"
  shows "\<exists>t' s'. dl_run (replicate (length (events env)) Ev) (downloadSingle_start p env, s) = Some (t', s') \<and>
                file_at s' p = Some (chunks_of (events env))"
proof -
  let ?t0 = "downloadSingle_start p env"
  obtain t1 where run1: "dl_run (replicate (length pre) Ev) (?t0, s) = Some (t1, s)"
    and t1: "ws_fd t1 = None" "ws_buf t1 = chunks_of pre" "pending t1 = Opened # post" "out_path t1 = p"
    using dl_run_unopened [of pre ?t0 "Opened # post" s] assms(1,2) by (auto simp: downloadSingle_start_def)
  obtain i s2 where op: "fs_open_trunc p s = (i, s2)" by (cases "fs_open_trunc p s")
  have i: "inodes s2 i = Some [] \<and> entries s2 p = Some i" using op by (rule fs_open_trunc_props)
  let ?t2 = "t1\<lparr>ws_fd := Some i, ws_pos := length (ws_buf t1), ws_buf := [], pending := post\<rparr>"
  let ?s3 = "fs_write i 0 (ws_buf t1) s2"
  have ev: "dl_event (t1, s) = Some (?t2\<lparr>phase := phase t1\<rparr>, ?s3)"
    using t1 op by (simp add: dl_event_Cons)
  have in3: "inodes ?s3 i = Some (chunks_of pre)" using i t1 by (simp add: fs_write_inode_same write_at_def)
  obtain t4 s4 where run2: "dl_run (replicate (length post) Ev) (?t2\<lparr>phase := phase t1\<rparr>, ?s3) = Some (t4, s4)"
    and t4: "inodes s4 i = Some (chunks_of pre @ chunks_of post)" "entries s4 = entries ?s3"
    using dl_run_opened [of post "?t2\<lparr>phase := phase t1\<rparr>" i ?s3 "chunks_of pre" "[]"] assms(3) in3 t1
    by auto
  have sched: "replicate (length (events env)) Ev = replicate (length pre) Ev @ Ev # replicate (length post) Ev"
    using assms(1) by (simp add: replicate_add replicate_append_same)
  have "dl_run (replicate (length (events env)) Ev) (?t0, s) = Some (t4, s4)"
    unfolding sched dl_run_append using run1 ev run2 by simp
  moreover have "file_at s4 p = Some (chunks_of (events env))"
    using t4 i assms(1) by (simp add: file_at_def chunks_of_append)
  ultimately show ?thesis by blast
qed

theorem downloadSingle_file_content_witness:
  "events \<lparr>sync_throw = None, events = [Chunk ''ab'', Opened, Chunk ''cd'', Finish]\<rparr>
     = [Chunk ''ab''] @ Opened # [Chunk ''cd'', Finish] \<and>
   Opened \<notin> set [Chunk ''ab''] \<and> Opened \<notin> set [Chunk ''cd'', Finish] \<and>
   (\<exists>t' s'. dl_run (replicate 4 Ev)
              (downloadSingle_start ''o/a'' \<lparr>sync_throw = None, events = [Chunk ''ab'', Opened, Chunk ''cd'', Finish]\<rparr>,
               \<lparr>entries = [''o/a'' \<mapsto> 0], inodes = [0 \<mapsto> ''old data''], next_ino = 1, dirs = {}\<rparr>)
            = Some (t', s') \<and> file_at s' ''o/a'' = Some ''abcd'')"
  using downloadSingle_file_content [of "\<lparr>sync_throw = None, events = [Chunk ''ab'', Opened, Chunk ''cd'', Finish]\<rparr>"
          "[Chunk ''ab'']" "[Chunk ''cd'', Finish]" "''o/a''"
          "\<lparr>entries = [''o/a'' \<mapsto> 0], inodes = [0 \<mapsto> ''old data''], next_ino = 1, dirs = {}\<rparr>"]
  by (simp add: numeral_eq_Suc)

theorem downloadSingle_result_witness:
  "dl_run [Ev, Ev, Ev]
     (downloadSingle_start ''out/a.mp3'' \<lparr>sync_throw = None, events = [Opened, Chunk ''ab'', Finish]\<rparr>,
      \<lparr>entries = Map.empty, inodes = Map.empty, next_ino = 0, dirs = {''out''}\<rparr>)
   = Some (\<lparr>out_path = ''out/a.mp3'', ws_fd = Some 0, ws_pos = 2, ws_buf = [], pending = [],
            phase = Returned success_result\<rparr>,
           \<lparr>entries = [''out/a.mp3'' \<mapsto> 0], inodes = [0 \<mapsto> ''ab''], next_ino = 1, dirs = {''out''}\<rparr>) \<and>
   phase \<lparr>out_path = ''out/a.mp3'', ws_fd = Some 0, ws_pos = 2, ws_buf = [], pending = [],
            phase = Returned success_result\<rparr> = Returned success_result \<and>
   expected_settle \<lparr>sync_throw = None, events = [Opened, Chunk ''ab'', Finish]\<rparr> = Some Resolved \<and>
   success_result = outcome Resolved"
proof -
  let ?env = "\<lparr>sync_throw = None, events = [Opened, Chunk ''ab'', Finish]\<rparr>"
  let ?fs0 = "\<lparr>entries = Map.empty, inodes = Map.empty, next_ino = 0, dirs = {''out''}\<rparr>"
  let ?t = "\<lparr>out_path = ''out/a.mp3'', ws_fd = Some 0, ws_pos = 2, ws_buf = [], pending = [],
            phase = Returned success_result\<rparr>"
  let ?fs1 = "\<lparr>entries = [''out/a.mp3'' \<mapsto> 0], inodes = [0 \<mapsto> ''ab''], next_ino = 1, dirs = {''out''}\<rparr>"
  have run: "dl_run [Ev, Ev, Ev] (downloadSingle_start ''out/a.mp3'' ?env, ?fs0) = Some (?t, ?fs1)"
    by (simp add: downloadSingle_start_def dl_event_def fs_open_trunc_def fs_write_def write_at_def)
  have "\<exists>st. expected_settle ?env = Some st \<and> success_result = outcome st"
    using run by (rule downloadSingle_result) simp
  then show ?thesis using run by (auto simp: expected_settle_def)
qed

end
