(* ===== verification/Limiter.thy ===== *)
theory Limiter
  imports Prelude
begin

text \<open>
  The Concurrency Limiter: \<open>pLimit\<close> of the \<open>p-limit\<close> package, which the
  constructor calls at line 45 of \<open>src/src/downloader.ts\<close> and which
  \<open>downloadPlaylist\<close> uses at line 104.  Its code is not part of the sources; it
  is modelled after the spec (section 4.2) and the package's documented
  behaviour: a count of active tasks, a FIFO queue of waiting tasks, and three
  operations, all run to completion without interruption:
  \<^item> \<open>Submit x\<close>: enqueue \<open>x\<close> (submission never blocks);
  \<^item> \<open>Check\<close>: the check a submission schedules for the next microtask: if a slot
    is free and a task waits, admit the head of the queue;
  \<^item> \<open>Done\<close>: an admitted task has settled: free its slot and admit the head of
    the queue if one waits.
  A concurrency below 1 is refused with a \<open>TypeError\<close> when the limiter is built.
\<close>

record 'a limiter =
  concurrency :: nat
  activeCount :: nat
  lim_queue :: "'a list"

definition concurrency_error :: jsval where
  "concurrency_error = JsError ''Expected `concurrency` to be a number from 1 and up''"

definition pLimit :: "int \<Rightarrow> jsval + 'a limiter" where
  "pLimit c =
     (if 0 < c then Inr \<lparr>concurrency = nat c, activeCount = 0, lim_queue = []\<rparr>
      else Inl concurrency_error)"

definition resumeNext :: "'a limiter \<Rightarrow> 'a option \<times> 'a limiter" where
  "resumeNext l =
     (if activeCount l < concurrency l \<and> lim_queue l \<noteq> []
      then (Some (hd (lim_queue l)), l\<lparr>lim_queue := tl (lim_queue l), activeCount := Suc (activeCount l)\<rparr>)
      else (None, l))"

datatype 'a lim_op = Submit 'a | Check | Done

fun lim_step :: "'a lim_op \<Rightarrow> 'a limiter \<Rightarrow> 'a option \<times> 'a limiter" where
  "lim_step (Submit x) l = (None, l\<lparr>lim_queue := lim_queue l @ [x]\<rparr>)"
| "lim_step Check l = resumeNext l"
| "lim_step Done l = resumeNext (l\<lparr>activeCount := activeCount l - 1\<rparr>)"

text \<open>A sequence of operations and the tasks it admits, in order.\<close>

fun lim_exec :: "'a lim_op list \<Rightarrow> 'a limiter \<Rightarrow> 'a list \<times> 'a limiter" where
  "lim_exec [] l = ([], l)"
| "lim_exec (op # ops) l =
     (let (a, l') = lim_step op l; (as, l'') = lim_exec ops l'
      in (case a of None \<Rightarrow> as | Some x \<Rightarrow> x # as, l''))"

fun submitted :: "'a lim_op list \<Rightarrow> 'a list" where
  "submitted [] = []"
| "submitted (Submit x # ops) = x # submitted ops"
| "submitted (_ # ops) = submitted ops"

definition lim_ok :: "'a limiter \<Rightarrow> bool" where
  "lim_ok l \<longleftrightarrow> activeCount l \<le> concurrency l"

subsection \<open>Lemmas\<close>

lemma resumeNext_cases:
  "resumeNext l = (None, l) \<and> \<not> (activeCount l < concurrency l \<and> lim_queue l \<noteq> [])
   \<or> (\<exists>x q. lim_queue l = x # q \<and> activeCount l < concurrency l \<and>
        resumeNext l = (Some x, l\<lparr>lim_queue := q, activeCount := Suc (activeCount l)\<rparr>))"
  by (cases "lim_queue l") (auto simp: resumeNext_def)

lemma resumeNext_concurrency [simp]: "concurrency (snd (resumeNext l)) = concurrency l"
  by (simp add: resumeNext_def)

lemma lim_step_concurrency [simp]: "concurrency (snd (lim_step op l)) = concurrency l"
  by (cases op) simp_all

lemma resumeNext_active:
  "activeCount (snd (resumeNext l)) =
   (if activeCount l < concurrency l \<and> lim_queue l \<noteq> [] then Suc (activeCount l) else activeCount l)"
  by (simp add: resumeNext_def)

lemma resumeNext_ok: "lim_ok l \<Longrightarrow> lim_ok (snd (resumeNext l))"
  by (auto simp: resumeNext_def lim_ok_def)

lemma lim_step_ok: "lim_ok l \<Longrightarrow> lim_ok (snd (lim_step op l))"
  by (cases op) (auto simp: lim_ok_def resumeNext_active)

lemma resumeNext_fifo:
  "(case fst (resumeNext l) of None \<Rightarrow> [] | Some x \<Rightarrow> [x]) @ lim_queue (snd (resumeNext l)) = lim_queue l"
  by (cases "lim_queue l") (auto simp: resumeNext_def)

lemma lim_step_fifo:
  "(case fst (lim_step op l) of None \<Rightarrow> [] | Some x \<Rightarrow> [x]) @ lim_queue (snd (lim_step op l))
   = lim_queue l @ submitted [op]"
proof (cases op)
  case Done
  have "(case fst (resumeNext (l\<lparr>activeCount := activeCount l - 1\<rparr>)) of None \<Rightarrow> [] | Some x \<Rightarrow> [x]) @
        lim_queue (snd (resumeNext (l\<lparr>activeCount := activeCount l - 1\<rparr>)))
        = lim_queue (l\<lparr>activeCount := activeCount l - 1\<rparr>)"
    by (rule resumeNext_fifo)
  with Done show ?thesis by simp
qed (simp_all add: resumeNext_fifo)

lemma resumeNext_admits:
  "fst (resumeNext l) \<noteq> None \<longleftrightarrow> activeCount l < concurrency l \<and> lim_queue l \<noteq> []"
  by (simp add: resumeNext_def)

lemma submitted_Cons: "submitted (op # ops) = submitted [op] @ submitted ops"
  by (cases op) simp_all

lemma lim_exec_Cons_snd: "snd (lim_exec (op # ops) l) = snd (lim_exec ops (snd (lim_step op l)))"
  by (simp split: prod.splits)

lemma lim_exec_append:
  "lim_exec (xs @ ys) l =
     (let (as, l') = lim_exec xs l; (bs, l'') = lim_exec ys l' in (as @ bs, l''))"
  by (induction xs arbitrary: l) (auto split: prod.splits option.splits)

lemma lim_exec_submits:
  "lim_exec (map Submit xs) l = ([], l\<lparr>lim_queue := lim_queue l @ xs\<rparr>)"
  by (induction xs arbitrary: l) auto

text \<open>\<open>m\<close> checks admit as many queued tasks as there are checks and free slots.\<close>

lemma lim_exec_checks:
  "lim_exec (replicate m Check) l =
     (let k = min m (min (concurrency l - activeCount l) (length (lim_queue l)))
      in (take k (lim_queue l), l\<lparr>lim_queue := drop k (lim_queue l), activeCount := activeCount l + k\<rparr>))"
proof (induction m arbitrary: l)
  case 0
  then show ?case by simp
next
  case (Suc m)
  show ?case
  proof (cases "activeCount l < concurrency l \<and> lim_queue l \<noteq> []")
    case True
    then obtain x q where q: "lim_queue l = x # q" by (cases "lim_queue l") auto
    let ?l1 = "l\<lparr>lim_queue := q, activeCount := Suc (activeCount l)\<rparr>"
    have r: "resumeNext l = (Some x, ?l1)" using True q by (simp add: resumeNext_def)
    have c: "concurrency l - activeCount l = Suc (concurrency l - Suc (activeCount l))"
      using True by arith
    have k: "min (Suc m) (min (concurrency l - activeCount l) (length (lim_queue l)))
             = Suc (min m (min (concurrency l - Suc (activeCount l)) (length q)))"
      using q c by simp
    show ?thesis
      using Suc.IH [of ?l1] r q k by (simp add: Let_def)
  next
    case False
    then have r: "resumeNext l = (None, l)" by (simp add: resumeNext_def)
    have k: "min (Suc m) (min (concurrency l - activeCount l) (length (lim_queue l)))
             = min m (min (concurrency l - activeCount l) (length (lim_queue l)))"
      using False by (auto simp: min_def)
    show ?thesis
      using Suc.IH [of l] r k by (simp add: Let_def)
  qed
qed

text \<open>Any sequence of operations admits tasks in the order they were submitted.\<close>

lemma lim_exec_fifo:
  "fst (lim_exec ops l) @ lim_queue (snd (lim_exec ops l)) = lim_queue l @ submitted ops"
proof (induction ops arbitrary: l)
  case Nil
  then show ?case by simp
next
  case (Cons op ops)
  obtain a l' where st: "lim_step op l = (a, l')" by (cases "lim_step op l")
  have one: "(case a of None \<Rightarrow> [] | Some x \<Rightarrow> [x]) @ lim_queue l' = lim_queue l @ submitted [op]"
    using lim_step_fifo [of op l] st by simp
  have "fst (lim_exec (op # ops) l) = (case a of None \<Rightarrow> [] | Some x \<Rightarrow> [x]) @ fst (lim_exec ops l')"
    using st by (simp split: prod.splits option.splits)
  moreover have "snd (lim_exec (op # ops) l) = snd (lim_exec ops l')"
    using st by (simp split: prod.splits option.splits)
  ultimately show ?case
    using Cons.IH [of l'] one submitted_Cons [of op ops] by (metis append.assoc)
qed

lemma lim_exec_ok: "lim_ok l \<Longrightarrow> lim_ok (snd (lim_exec ops l))"
proof (induction ops arbitrary: l)
  case (Cons op ops)
  obtain a l' where st: "lim_step op l = (a, l')" by (cases "lim_step op l")
  have "lim_ok (snd (lim_step op l))" using Cons.prems by (rule lim_step_ok)
  then show ?case using Cons.IH by (simp only: lim_exec_Cons_snd)
qed simp

end
