(* ===== verification/System.thy ===== *)
theory System
  imports Download Limiter
begin

text \<open>
  The fan-out of \<open>downloadPlaylist\<close> (lines 102--106 of \<open>src/src/downloader.ts\<close>):
  every item is submitted to the limiter, \<open>this.limit(() => this.downloadSingle(...))\<close>,
  and \<open>Promise.all\<close> waits for every result.  The state \<open>sys\<close> holds the limiter,
  one slot per item (\<open>None\<close> until the limiter admits it, then its download
  machine) and the shared file system.
  \<^item> \<open>launch\<close>: the synchronous \<open>items.map\<close> submits every index in order, then the
    checks the submissions scheduled run, admitting the first items while slots
    are free; each admitted item runs \<open>downloadSingle\<close> up to its first \<open>await\<close>.
  \<^item> \<open>sys_step\<close>: one step of one admitted download (an event of its streams or the
    completion of its unlink), chosen by the environment, so that the steps of the
    downloads interleave arbitrarily.  When the step makes the download return,
    the limiter's \<open>next()\<close> runs in the same turn of the event loop (it is a
    microtask), frees the slot and admits the head of the queue.
  The item configuration \<open>cfg\<close> gives, per item, its output path and the
  environment's script for its streams.
\<close>

type_synonym item_cfg = "path \<times> dl_env"

record sys =
  lim :: "nat limiter"
  tasks :: "dl_task option list"
  fsys :: fs

definition returned :: "dl_task \<Rightarrow> bool" where
  "returned t \<longleftrightarrow> (case phase t of Returned r \<Rightarrow> True | _ \<Rightarrow> False)"

definition running :: "dl_task option \<Rightarrow> bool" where
  "running ot \<longleftrightarrow> (case ot of None \<Rightarrow> False | Some t \<Rightarrow> \<not> returned t)"

definition start_of :: "item_cfg list \<Rightarrow> nat \<Rightarrow> dl_task" where
  "start_of cfg j = downloadSingle_start (fst (cfg ! j)) (snd (cfg ! j))"

definition start_task :: "item_cfg list \<Rightarrow> nat \<Rightarrow> dl_task option list \<Rightarrow> dl_task option list" where
  "start_task cfg j ts = ts[j := Some (start_of cfg j)]"

definition admit :: "item_cfg list \<Rightarrow> nat option \<Rightarrow> dl_task option list \<Rightarrow> dl_task option list" where
  "admit cfg a ts = (case a of None \<Rightarrow> ts | Some j \<Rightarrow> start_task cfg j ts)"

definition launch :: "item_cfg list \<Rightarrow> nat limiter \<Rightarrow> fs \<Rightarrow> sys" where
  "launch cfg l s =
     (let n = length cfg;
          (adm, l') = lim_exec (map Submit [0..<n] @ replicate n Check) l
      in \<lparr>lim = l', tasks = fold (start_task cfg) adm (replicate n None), fsys = s\<rparr>)"

definition sys_step :: "item_cfg list \<Rightarrow> nat \<times> dl_action \<Rightarrow> sys \<Rightarrow> sys option" where
  "sys_step cfg ia st =
     (let (i, a) = ia in
      if i < length (tasks st) then
        (case tasks st ! i of
           None \<Rightarrow> None
         | Some t \<Rightarrow>
            (case dl_step a (t, fsys st) of
               None \<Rightarrow> None
             | Some (t', s') \<Rightarrow>
                 (let ts = (tasks st)[i := Some t']
                  in if returned t' \<and> \<not> returned t
                     then (let (adm, l') = lim_step Done (lim st)
                           in Some \<lparr>lim = l', tasks = admit cfg adm ts, fsys = s'\<rparr>)
                     else Some (st\<lparr>tasks := ts, fsys := s'\<rparr>))))
      else None)"

fun sys_run :: "item_cfg list \<Rightarrow> (nat \<times> dl_action) list \<Rightarrow> sys \<Rightarrow> sys option" where
  "sys_run cfg [] st = Some st"
| "sys_run cfg (x # xs) st = (case sys_step cfg x st of None \<Rightarrow> None | Some st' \<Rightarrow> sys_run cfg xs st')"

inductive sys_reach :: "item_cfg list \<Rightarrow> sys \<Rightarrow> sys \<Rightarrow> bool" for cfg where
  refl: "sys_reach cfg st st"
| step: "sys_reach cfg st st' \<Longrightarrow> sys_step cfg x st' = Some st'' \<Longrightarrow> sys_reach cfg st st''"

text \<open>The result an item's slot holds, once its download returned; \<open>Promise.all\<close> resolves when all have one.\<close>

definition task_result :: "dl_task option \<Rightarrow> download_result option" where
  "task_result ot = (case ot of None \<Rightarrow> None | Some t \<Rightarrow> (case phase t of Returned r \<Rightarrow> Some r | _ \<Rightarrow> None))"

fun all_some :: "'a option list \<Rightarrow> 'a list option" where
  "all_some [] = Some []"
| "all_some (x # xs) = (case x of None \<Rightarrow> None | Some y \<Rightarrow> map_option (Cons y) (all_some xs))"

definition sys_results :: "sys \<Rightarrow> download_result list option" where
  "sys_results st = all_some (map task_result (tasks st))"

text \<open>The results the scripts determine, when each of them settles.\<close>

definition expected_results :: "item_cfg list \<Rightarrow> download_result list option" where
  "expected_results cfg = all_some (map (\<lambda>c. map_option outcome (expected_settle (snd c))) cfg)"

text \<open>A limiter as \<open>pLimit\<close> builds it and as it is between two playlists: nothing active, nothing queued.\<close>

definition lim_idle :: "'a limiter \<Rightarrow> bool" where
  "lim_idle l \<longleftrightarrow> activeCount l = 0 \<and> lim_queue l = []"

text \<open>
  The system invariant: one slot per item; the admitted items are a prefix of the
  playlist and the queue holds the others in order (FIFO admission); the
  limiter's count is the number of downloads in flight and stays within the
  concurrency; no slot is idle while an item waits; every admitted download runs
  on its own path and agrees with its script.
\<close>

definition sys_inv :: "item_cfg list \<Rightarrow> sys \<Rightarrow> bool" where
  "sys_inv cfg st \<longleftrightarrow>
     length (tasks st) = length cfg \<and>
     (\<exists>k \<le> length cfg. lim_queue (lim st) = [k..<length cfg] \<and>
                       (\<forall>i < length cfg. (tasks st ! i \<noteq> None) = (i < k))) \<and>
     activeCount (lim st) = length (filter running (tasks st)) \<and>
     activeCount (lim st) \<le> concurrency (lim st) \<and>
     (lim_queue (lim st) \<noteq> [] \<longrightarrow> activeCount (lim st) = concurrency (lim st)) \<and>
     (\<forall>i < length cfg. \<forall>t. tasks st ! i = Some t \<longrightarrow>
        out_path t = fst (cfg ! i) \<and> dl_inv (snd (cfg ! i)) t)"

subsection \<open>Lemmas\<close>

lemma start_not_returned: "\<not> returned (downloadSingle_start p env)"
  by (simp add: returned_def downloadSingle_start_def split: option.splits)

lemma start_of_not_returned [simp]: "\<not> returned (start_of cfg j)"
  by (simp add: start_of_def start_not_returned)

lemma fold_start_task_length [simp]: "length (fold (start_task cfg) js ts) = length ts"
  by (induction js arbitrary: ts) (simp_all add: start_task_def)

lemma fold_start_task_nth:
  "i < length ts \<Longrightarrow>
   fold (start_task cfg) js ts ! i = (if i \<in> set js then Some (start_of cfg i) else ts ! i)"
  by (induction js arbitrary: ts) (auto simp: start_task_def nth_list_update)

lemma launch_exec:
  assumes "lim_idle l"
  shows "lim_exec (map Submit [0..<n] @ replicate n Check) l
         = ([0..<min n (concurrency l)],
            l\<lparr>lim_queue := [min n (concurrency l)..<n], activeCount := min n (concurrency l)\<rparr>)"
  using assms
  by (simp add: lim_exec_append lim_exec_submits lim_exec_checks lim_idle_def Let_def min.commute)

lemma launch_tasks:
  "k \<le> n \<Longrightarrow> fold (start_task cfg) [0..<k] (replicate n None)
   = map (\<lambda>i. if i < k then Some (start_of cfg i) else None) [0..<n]"
  by (rule nth_equalityI) (simp_all add: fold_start_task_nth)

lemma filter_upt_less: "k \<le> n \<Longrightarrow> filter (\<lambda>i. i < k) [0..<n] = [0..<k]"
proof (induction n)
  case (Suc n)
  then show ?case by (cases "k = Suc n") auto
qed simp

lemma running_prefix:
  "k \<le> n \<Longrightarrow> length (filter running (map (\<lambda>i. if i < k then Some (start_of cfg i) else None) [0..<n])) = k"
proof -
  assume k: "k \<le> n"
  have "running \<circ> (\<lambda>i. if i < k then Some (start_of cfg i) else None) = (\<lambda>i. i < k)"
    by (auto simp: running_def fun_eq_iff)
  then show ?thesis using k by (simp add: filter_upt_less)
qed

lemma start_of_props: "out_path (start_of cfg i) = fst (cfg ! i)" "dl_inv (snd (cfg ! i)) (start_of cfg i)"
  by (simp_all add: start_of_def dl_inv_start phase_start)

lemma launch_eq:
  assumes "lim_idle l"
  shows "launch cfg l s =
    \<lparr>lim = l\<lparr>lim_queue := [min (length cfg) (concurrency l)..<length cfg],
               activeCount := min (length cfg) (concurrency l)\<rparr>,
     tasks = map (\<lambda>i. if i < min (length cfg) (concurrency l) then Some (start_of cfg i) else None) [0..<length cfg],
     fsys = s\<rparr>"
  by (simp add: launch_def launch_exec [OF assms] launch_tasks Let_def)

lemma launch_inv:
  assumes "lim_idle l"
  shows "sys_inv cfg (launch cfg l s)"
proof -
  let ?n = "length cfg"
  let ?k = "min ?n (concurrency l)"
  have c: "length (filter running (map (\<lambda>i. if i < ?k then Some (start_of cfg i) else None) [0..<?n])) = ?k"
    by (rule running_prefix) simp
  have w: "[?k..<?n] \<noteq> [] \<longrightarrow> ?k = concurrency l" by auto
  have d: "\<forall>i < ?n. \<forall>t. (if i < ?k then Some (start_of cfg i) else None) = Some t \<longrightarrow>
             out_path t = fst (cfg ! i) \<and> dl_inv (snd (cfg ! i)) t"
    by (auto simp: start_of_props)
  show ?thesis
    unfolding sys_inv_def launch_eq [OF assms]
    using c w d by (simp, intro exI [of _ ?k]) auto
qed

lemma length_filter_update:
  "i < length xs \<Longrightarrow>
   length (filter P (xs[i := x])) + (if P (xs ! i) then 1 else 0) = length (filter P xs) + (if P x then 1 else 0)"
proof (induction xs arbitrary: i)
  case (Cons y xs)
  then show ?case by (cases i) auto
qed simp

lemma dl_step_out_path: "dl_step a (t, s) = Some (t', s') \<Longrightarrow> out_path t' = out_path t"
proof (cases a)
  case Ev
  assume st: "dl_step a (t, s) = Some (t', s')"
  show ?thesis
  proof (cases "pending t")
    case Nil
    with st Ev show ?thesis by (simp add: dl_event_Nil)
  next
    case (Cons e es)
    with st Ev show ?thesis by (auto simp: dl_event_Cons)
  qed
next
  case Unlink
  assume "dl_step a (t, s) = Some (t', s')"
  with Unlink show ?thesis by (auto simp: dl_unlink_def split: dl_phase.splits)
qed

lemma dl_step_returned_stable: "dl_step a (t, s) = Some (t', s') \<Longrightarrow> returned t \<Longrightarrow> returned t'"
proof (cases a)
  case Ev
  assume st: "dl_step a (t, s) = Some (t', s')" and r: "returned t"
  show ?thesis
  proof (cases "pending t")
    case Nil
    with st Ev show ?thesis by (simp add: dl_event_Nil)
  next
    case (Cons e es)
    with st Ev r show ?thesis
      by (auto simp: dl_event_Cons returned_def settle_phase_not_Piping split: dl_phase.splits)
  qed
next
  case Unlink
  assume "dl_step a (t, s) = Some (t', s')" "returned t"
  with Unlink show ?thesis by (auto simp: dl_unlink_def returned_def split: dl_phase.splits)
qed

lemma sys_step_SomeE:
  assumes "sys_step cfg (i, a) st = Some st'"
  obtains t t' s' where "i < length (tasks st)" "tasks st ! i = Some t" "dl_step a (t, fsys st) = Some (t', s')"
    "returned t'" "\<not> returned t"
    "st' = \<lparr>lim = snd (lim_step Done (lim st)),
            tasks = admit cfg (fst (lim_step Done (lim st))) ((tasks st)[i := Some t']), fsys = s'\<rparr>"
  | t t' s' where "i < length (tasks st)" "tasks st ! i = Some t" "dl_step a (t, fsys st) = Some (t', s')"
    "\<not> (returned t' \<and> \<not> returned t)"
    "st' = st\<lparr>tasks := (tasks st)[i := Some t'], fsys := s'\<rparr>"
  using assms
  by (auto simp: sys_step_def split_def Let_def split: if_splits option.splits)

lemma sys_invD:
  assumes "sys_inv cfg st"
  shows "length (tasks st) = length cfg"
    and "\<exists>k \<le> length cfg. lim_queue (lim st) = [k..<length cfg] \<and>
                       (\<forall>j < length cfg. (tasks st ! j \<noteq> None) = (j < k))"
    and "activeCount (lim st) = length (filter running (tasks st))"
    and "activeCount (lim st) \<le> concurrency (lim st)"
    and "lim_queue (lim st) \<noteq> [] \<Longrightarrow> activeCount (lim st) = concurrency (lim st)"
    and "j < length cfg \<Longrightarrow> tasks st ! j = Some u \<Longrightarrow> out_path u = fst (cfg ! j) \<and> dl_inv (snd (cfg ! j)) u"
  using assms unfolding sys_inv_def by blast+

lemma sys_invI:
  assumes "length (tasks st) = length cfg"
    and "k \<le> length cfg" "lim_queue (lim st) = [k..<length cfg]"
    and "\<forall>j < length cfg. (tasks st ! j \<noteq> None) = (j < k)"
    and "activeCount (lim st) = length (filter running (tasks st))"
    and "activeCount (lim st) \<le> concurrency (lim st)"
    and "lim_queue (lim st) \<noteq> [] \<longrightarrow> activeCount (lim st) = concurrency (lim st)"
    and "\<forall>j < length cfg. \<forall>u. tasks st ! j = Some u \<longrightarrow> out_path u = fst (cfg ! j) \<and> dl_inv (snd (cfg ! j)) u"
  shows "sys_inv cfg st"
  using assms unfolding sys_inv_def by blast

lemma running_Some: "running (Some t) = (\<not> returned t)"
  by (simp add: running_def)

lemma sys_inv_cont:
  assumes inv: "sys_inv cfg st" and i: "i < length (tasks st)" and ti: "tasks st ! i = Some t"
      and st: "dl_step a (t, fsys st) = Some (t', s')" and nr: "\<not> (returned t' \<and> \<not> returned t)"
  shows "sys_inv cfg (st\<lparr>tasks := (tasks st)[i := Some t'], fsys := s'\<rparr>)"
proof -
  have rr: "running (Some t') = running (tasks st ! i)"
    using nr dl_step_returned_stable [OF st] ti by (auto simp: running_Some)
  have cnt: "length (filter running ((tasks st)[i := Some t'])) = length (filter running (tasks st))"
    using length_filter_update [OF i, of running "Some t'"] rr by simp
  have len: "length (tasks st) = length cfg" by (rule sys_invD(1) [OF inv])
  have tk: "out_path t = fst (cfg ! i) \<and> dl_inv (snd (cfg ! i)) t"
    using sys_invD(6) [OF inv] i ti len by simp
  have tk': "out_path t' = fst (cfg ! i) \<and> dl_inv (snd (cfg ! i)) t'"
    using tk dl_step_out_path [OF st] dl_step_inv [OF st] by simp
  have nn: "((tasks st)[i := Some t'] ! j \<noteq> None) = (tasks st ! j \<noteq> None)" for j
    using ti i by (cases "j = i") simp_all
  obtain k where k: "k \<le> length cfg" "lim_queue (lim st) = [k..<length cfg]"
      "\<forall>j < length cfg. (tasks st ! j \<noteq> None) = (j < k)"
    using sys_invD(2) [OF inv] by blast
  have ui: "\<forall>j < length cfg. \<forall>u. (tasks st)[i := Some t'] ! j = Some u \<longrightarrow>
            out_path u = fst (cfg ! j) \<and> dl_inv (snd (cfg ! j)) u"
    using sys_invD(6) [OF inv] tk' len i by (auto simp: nth_list_update)
  show ?thesis
    by (rule sys_invI [where k = k])
       (use len k nn cnt ui sys_invD(3-5) [OF inv] in simp_all)
qed

lemma sys_inv_ret:
  assumes inv: "sys_inv cfg st" and i: "i < length (tasks st)" and ti: "tasks st ! i = Some t"
      and st: "dl_step a (t, fsys st) = Some (t', s')" and r': "returned t'" and nr: "\<not> returned t"
  shows "sys_inv cfg \<lparr>lim = snd (lim_step Done (lim st)),
                       tasks = admit cfg (fst (lim_step Done (lim st))) ((tasks st)[i := Some t']),
                       fsys = s'\<rparr>"
proof -
  let ?ts = "(tasks st)[i := Some t']"
  let ?l0 = "(lim st)\<lparr>activeCount := activeCount (lim st) - 1\<rparr>"
  have len: "length (tasks st) = length cfg" by (rule sys_invD(1) [OF inv])
  obtain k where k: "k \<le> length cfg" "lim_queue (lim st) = [k..<length cfg]"
      "\<forall>j < length cfg. (tasks st ! j \<noteq> None) = (j < k)"
    using sys_invD(2) [OF inv] by blast
  have tk: "out_path t = fst (cfg ! i) \<and> dl_inv (snd (cfg ! i)) t"
    using sys_invD(6) [OF inv] i ti len by simp
  have tk': "out_path t' = fst (cfg ! i) \<and> dl_inv (snd (cfg ! i)) t'"
    using tk dl_step_out_path [OF st] dl_step_inv [OF st] by simp
  have cnt: "length (filter running ?ts) + 1 = length (filter running (tasks st))"
    using length_filter_update [OF i, of running "Some t'"] ti r' nr by (simp add: running_Some)
  have act: "activeCount (lim st) = length (filter running (tasks st))" by (rule sys_invD(3) [OF inv])
  have le: "activeCount (lim st) \<le> concurrency (lim st)" by (rule sys_invD(4) [OF inv])
  have ik: "i < k" using k(3) i ti len by auto
  have ui: "\<forall>j < length cfg. \<forall>u. ?ts ! j = Some u \<longrightarrow> out_path u = fst (cfg ! j) \<and> dl_inv (snd (cfg ! j)) u"
    using sys_invD(6) [OF inv] tk' len i by (auto simp: nth_list_update)
  have nn: "(?ts ! j \<noteq> None) = (tasks st ! j \<noteq> None)" for j
    using ti i by (cases "j = i") simp_all
  show ?thesis
  proof (cases "k < length cfg")
    case True
    have q: "lim_queue ?l0 = k # [Suc k..<length cfg]" using k(2) True by (simp add: upt_conv_Cons)
    have free: "activeCount ?l0 < concurrency ?l0" using le act cnt by simp
    have rn: "lim_step Done (lim st) = (Some k, ?l0\<lparr>lim_queue := [Suc k..<length cfg], activeCount := activeCount (lim st)\<rparr>)"
      using q free act cnt by (simp add: resumeNext_def)
    have "lim_queue (lim st) \<noteq> []" using k(2) True by auto
    then have wc: "activeCount (lim st) = concurrency (lim st)" by (rule sys_invD(5) [OF inv])
    have "tasks st ! k = None" using k(3) True by auto
    then have tsk: "?ts ! k = None" using ik by simp
    have cnt2: "length (filter running (?ts[k := Some (start_of cfg k)])) = length (filter running ?ts) + 1"
      using length_filter_update [of k ?ts running "Some (start_of cfg k)"] True len tsk
      by (simp add: running_def)
    have pre: "\<forall>j < length cfg. (?ts[k := Some (start_of cfg k)] ! j \<noteq> None) = (j < Suc k)"
      using k(3) nn True len by (auto simp: nth_list_update)
    have uk: "\<forall>j < length cfg. \<forall>u. ?ts[k := Some (start_of cfg k)] ! j = Some u \<longrightarrow>
                out_path u = fst (cfg ! j) \<and> dl_inv (snd (cfg ! j)) u"
      using ui True len by (auto simp: nth_list_update start_of_props)
    show ?thesis
      by (rule sys_invI [where k = "Suc k"])
         (use len True pre cnt cnt2 act le wc uk rn in \<open>simp_all add: admit_def start_task_def\<close>)
  next
    case False
    then have kn: "k = length cfg" using k(1) by simp
    have rn: "lim_step Done (lim st) = (None, ?l0)" using k(2) kn by (simp add: resumeNext_def)
    show ?thesis
      by (rule sys_invI [where k = k])
         (use len k kn nn cnt act le ui rn in \<open>simp_all add: admit_def\<close>)
  qed
qed

lemma sys_step_inv: "sys_step cfg x st = Some st' \<Longrightarrow> sys_inv cfg st \<Longrightarrow> sys_inv cfg st'"
proof (cases x)
  case (Pair i a)
  assume stp: "sys_step cfg x st = Some st'" and inv: "sys_inv cfg st"
  from stp Pair have "sys_step cfg (i, a) st = Some st'" by simp
  then show ?thesis
  proof (rule sys_step_SomeE)
    fix t t' s'
    assume i: "i < length (tasks st)" and ti: "tasks st ! i = Some t"
      and ds: "dl_step a (t, fsys st) = Some (t', s')" and r: "returned t'" and nr: "\<not> returned t"
      and st': "st' = \<lparr>lim = snd (lim_step Done (lim st)),
              tasks = admit cfg (fst (lim_step Done (lim st))) ((tasks st)[i := Some t']), fsys = s'\<rparr>"
    show ?thesis unfolding st' by (rule sys_inv_ret [OF inv i ti ds r nr])
  next
    fix t t' s'
    assume "i < length (tasks st)" "tasks st ! i = Some t" "dl_step a (t, fsys st) = Some (t', s')"
      "\<not> (returned t' \<and> \<not> returned t)" "st' = st\<lparr>tasks := (tasks st)[i := Some t'], fsys := s'\<rparr>"
    with inv show ?thesis by (simp add: sys_inv_cont)
  qed
qed

lemma sys_step_concurrency:
  "sys_step cfg x st = Some st' \<Longrightarrow> concurrency (lim st') = concurrency (lim st)"
  by (cases x) (auto elim!: sys_step_SomeE)

lemma sys_reach_inv: "sys_reach cfg st st' \<Longrightarrow> sys_inv cfg st \<Longrightarrow> sys_inv cfg st'"
  by (induction rule: sys_reach.induct) (auto intro: sys_step_inv)

lemma sys_reach_concurrency: "sys_reach cfg st st' \<Longrightarrow> concurrency (lim st') = concurrency (lim st)"
  by (induction rule: sys_reach.induct) (auto dest: sys_step_concurrency)

lemma launch_concurrency: "lim_idle l \<Longrightarrow> concurrency (lim (launch cfg l s)) = concurrency l"
  by (simp add: launch_eq)

lemma reach_launch_inv: "lim_idle l \<Longrightarrow> sys_reach cfg (launch cfg l s) st \<Longrightarrow> sys_inv cfg st"
  by (blast intro: sys_reach_inv launch_inv)

lemma reach_launch_concurrency:
  "lim_idle l \<Longrightarrow> sys_reach cfg (launch cfg l s) st \<Longrightarrow> concurrency (lim st) = concurrency l"
  by (simp add: sys_reach_concurrency launch_concurrency)

lemma sys_reach_trans:
  assumes "sys_reach cfg a b" and "sys_reach cfg b c"
  shows "sys_reach cfg a c"
  using assms(2,1) by (induction rule: sys_reach.induct) (auto intro: sys_reach.step)

lemma sys_run_reach: "sys_run cfg xs st = Some st' \<Longrightarrow> sys_reach cfg st st'"
proof (induction xs arbitrary: st)
  case Nil
  then show ?case by (simp add: sys_reach.refl)
next
  case (Cons x xs)
  then obtain st1 where s1: "sys_step cfg x st = Some st1" and r: "sys_run cfg xs st1 = Some st'"
    by (auto split: option.splits)
  have "sys_reach cfg st st1" using sys_reach.refl s1 by (rule sys_reach.step)
  moreover have "sys_reach cfg st1 st'" using r by (rule Cons.IH)
  ultimately show ?case by (rule sys_reach_trans)
qed

lemma sys_run_append:
  "sys_run cfg (xs @ ys) st = (case sys_run cfg xs st of None \<Rightarrow> None | Some st' \<Rightarrow> sys_run cfg ys st')"
  by (induction xs arbitrary: st) (auto split: option.splits)

lemma sys_reach_run: "sys_reach cfg st st' \<Longrightarrow> \<exists>xs. sys_run cfg xs st = Some st'"
proof (induction rule: sys_reach.induct)
  case (refl st)
  have "sys_run cfg [] st = Some st" by simp
  then show ?case by blast
next
  case (step st st' x st'')
  then obtain xs where "sys_run cfg xs st = Some st'" by blast
  then have "sys_run cfg (xs @ [x]) st = Some st''" using step.hyps(2) by (simp add: sys_run_append)
  then show ?case by blast
qed

lemma all_some_iff: "all_some xs = Some ys \<longleftrightarrow> length xs = length ys \<and> (\<forall>i < length xs. xs ! i = Some (ys ! i))"
proof (induction xs arbitrary: ys)
  case Nil
  then show ?case by auto
next
  case (Cons x xs)
  show ?case
  proof (cases ys)
    case Nil
    then show ?thesis by (auto split: option.splits)
  next
    case (Cons y ys')
    then show ?thesis using Cons.IH [of ys'] by (auto simp: nth_Cons split: option.splits nat.splits)
  qed
qed

end
