(* ===== verification/Runs.thy ===== *)
theory Runs
  imports System
begin

text \<open>
  Whole runs of \<open>downloadPlaylist\<close> (\<open>src/src/downloader.ts\<close>, lines 102--106): the
  properties of every interleaving the event loop may choose, stated over the
  reachability relation \<open>System.sys_reach\<close> from the state \<open>System.launch\<close> builds.
  A termination measure (\<open>sys_measure\<close>: per item, its pending events plus a weight
  for its phase, or its script length plus 3 while it waits in the queue) shows that
  no schedule runs forever; a progress lemma shows that, when every item's script
  settles, some step is always enabled until every result is in.  The sample
  playlists \<open>sample_cfg\<close> and \<open>hang_cfg\<close> are fixtures the witnesses run on.
\<close>

definition sample_cfg :: "item_cfg list" where
  "sample_cfg = [(''o/a.mp3'', \<lparr>sync_throw = None, events = [Opened, Chunk ''a'', Finish]\<rparr>),
                 (''o/b.mp3'', \<lparr>sync_throw = None, events = [ReadFail (JsError ''net'')]\<rparr>)]"
definition sample_limiter :: "nat limiter" where
  "sample_limiter = \<lparr>concurrency = 1, activeCount = 0, lim_queue = []\<rparr>"
definition sample_fs :: fs where
  "sample_fs = \<lparr>entries = Map.empty, inodes = Map.empty, next_ino = 0, dirs = {''o''}\<rparr>"

definition phase_weight :: "dl_phase \<Rightarrow> nat" where
  "phase_weight ph = (case ph of Piping \<Rightarrow> 2 | Unlinking v \<Rightarrow> 1 | Returned r \<Rightarrow> 0)"

definition task_measure :: "item_cfg \<Rightarrow> dl_task option \<Rightarrow> nat" where
  "task_measure c ot =
     (case ot of None \<Rightarrow> length (events (snd c)) + 3
      | Some t \<Rightarrow> length (pending t) + phase_weight (phase t))"

definition sys_measure :: "item_cfg list \<Rightarrow> sys \<Rightarrow> nat" where
  "sys_measure cfg st = sum_list (map2 task_measure cfg (tasks st))"

definition hang_cfg :: "item_cfg list" where
  "hang_cfg = [(''o/a.mp3'', \<lparr>sync_throw = None, events = [Opened, Chunk ''a'']\<rparr>),
               (''o/b.mp3'', \<lparr>sync_throw = None, events = [Opened, Finish]\<rparr>)]"

lemma sample_run_tasks:
  "map_option tasks (sys_run sample_cfg [(0, Ev), (0, Ev), (0, Ev), (1, Ev), (1, Unlink)]
                       (launch sample_cfg sample_limiter sample_fs))
   = Some [Some \<lparr>out_path = ''o/a.mp3'', ws_fd = Some 0, ws_pos = 1, ws_buf = [], pending = [],
                  phase = Returned success_result\<rparr>,
           Some \<lparr>out_path = ''o/b.mp3'', ws_fd = None, ws_pos = 0, ws_buf = [], pending = [],
                  phase = Returned (failure_result (JsError ''net''))\<rparr>]"
  by code_simp

lemma drained_stuck:
  assumes "\<forall>ot \<in> set (tasks st). \<exists>t. ot = Some t \<and> pending t = [] \<and> returned t"
  shows "sys_step cfg x st = None"
proof (cases x)
  case (Pair i a)
  show ?thesis
  proof (cases "i < length (tasks st)")
    case True
    then obtain t where ti: "tasks st ! i = Some t" and p: "pending t = []" and r: "returned t"
      using assms nth_mem by blast
    have "dl_step a (t, fsys st) = None"
      using p r by (cases a) (auto simp: dl_event_Nil dl_unlink_def returned_def split: dl_phase.splits)
    then show ?thesis using Pair True ti by (simp add: sys_step_def)
  next
    case False
    then show ?thesis using Pair by (simp add: sys_step_def)
  qed
qed

lemma sample_run:
  "\<exists>st. sys_run sample_cfg [(0, Ev), (0, Ev), (0, Ev), (1, Ev), (1, Unlink)] (launch sample_cfg sample_limiter sample_fs) = Some st
        \<and> sys_results st = Some [success_result, failure_result (JsError ''net'')]"
proof -
  have "map_option sys_results (sys_run sample_cfg [(0, Ev), (0, Ev), (0, Ev), (1, Ev), (1, Unlink)]
          (launch sample_cfg sample_limiter sample_fs)) = Some (Some [success_result, failure_result (JsError ''net'')])"
    by code_simp
  then show ?thesis by blast
qed

lemma task_result_Some: "task_result ot = Some r \<longleftrightarrow> (\<exists>t. ot = Some t \<and> phase t = Returned r)"
  by (auto simp: task_result_def split: option.splits dl_phase.splits)

lemma sample_idle: "lim_idle sample_limiter"
  by (simp add: lim_idle_def sample_limiter_def)

text \<open>C6: at every point of every interleaving, the number of downloads in flight
  (admitted and not yet returned) is at most the limiter's concurrency.\<close>

theorem downloads_in_flight_bounded:
  assumes "lim_idle l" and "sys_reach cfg (launch cfg l s) st"
  shows "length (filter running (tasks st)) \<le> concurrency l"
  using sys_invD(3,4) [OF reach_launch_inv [OF assms]] reach_launch_concurrency [OF assms] by simp

theorem downloads_in_flight_bounded_witness:
  "\<exists>st. lim_idle sample_limiter \<and> sys_reach sample_cfg (launch sample_cfg sample_limiter sample_fs) st \<and>
        sys_results st = Some [success_result, failure_result (JsError ''net'')] \<and>
        length (filter running (tasks st)) \<le> concurrency sample_limiter"
proof -
  obtain st where r: "sys_run sample_cfg [(0, Ev), (0, Ev), (0, Ev), (1, Ev), (1, Unlink)] (launch sample_cfg sample_limiter sample_fs) = Some st"
    and res: "sys_results st = Some [success_result, failure_result (JsError ''net'')]"
    using sample_run by blast
  have reach: "sys_reach sample_cfg (launch sample_cfg sample_limiter sample_fs) st" using r by (rule sys_run_reach)
  show ?thesis using sample_idle reach res downloads_in_flight_bounded [OF sample_idle reach] by blast
qed

text \<open>C17: admission is FIFO: in every reachable state the admitted items are exactly
  the first k of the playlist, and the limiter's queue holds the others in playlist order.\<close>

theorem admission_fifo:
  assumes "lim_idle l" and "sys_reach cfg (launch cfg l s) st"
  shows "\<exists>k \<le> length cfg. lim_queue (lim st) = [k..<length cfg] \<and>
                          (\<forall>i < length cfg. tasks st ! i \<noteq> None \<longleftrightarrow> i < k)"
  using sys_invD(2) [OF reach_launch_inv [OF assms]] by blast

text \<open>C18: no slot is idle while an item waits: whenever the queue is not empty, exactly
  as many downloads are in flight as the concurrency allows.\<close>

theorem no_idle_slot:
  assumes "lim_idle l" and "sys_reach cfg (launch cfg l s) st" and "lim_queue (lim st) \<noteq> []"
  shows "length (filter running (tasks st)) = concurrency l"
  using sys_invD(3,5) [OF reach_launch_inv [OF assms(1,2)]] reach_launch_concurrency [OF assms(1,2)] assms(3)
  by simp

lemma reached_results_expected:
  assumes "lim_idle l" and "sys_reach cfg (launch cfg l s) st" and "sys_results st = Some rs"
  shows "expected_results cfg = Some rs"
proof -
  have inv: "sys_inv cfg st" using assms(1,2) by (rule reach_launch_inv)
  have len: "length (tasks st) = length cfg" by (rule sys_invD(1) [OF inv])
  have each: "\<forall>i < length (tasks st). task_result (tasks st ! i) = Some (rs ! i)" and lr: "length (tasks st) = length rs"
    using assms(3) by (simp_all add: sys_results_def all_some_iff)
  have "map_option outcome (expected_settle (snd (cfg ! i))) = Some (rs ! i)" if i: "i < length cfg" for i
  proof -
    have "task_result (tasks st ! i) = Some (rs ! i)" using each i len by simp
    then obtain t where ti: "tasks st ! i = Some t" and ph: "phase t = Returned (rs ! i)"
      by (auto simp: task_result_Some)
    have "dl_inv (snd (cfg ! i)) t" using sys_invD(6) [OF inv i ti] by simp
    then show ?thesis using ph by (auto simp: dl_inv_def)
  qed
  then show ?thesis using len lr by (simp add: expected_results_def all_some_iff)
qed

text \<open>C2: the results \<open>Promise.all\<close> delivers do not depend on the interleaving: in any
  reachable state where every download has returned, the results are, item by item in
  playlist order, the outcomes the items' scripts determine.\<close>

theorem results_independent_of_interleaving:
  assumes "lim_idle l" and "sys_reach cfg (launch cfg l s) st" and "sys_results st = Some rs"
  shows "expected_results cfg = Some rs"
  using assms by (rule reached_results_expected)

theorem results_independent_of_interleaving_witness:
  "\<exists>st. lim_idle sample_limiter \<and> sys_reach sample_cfg (launch sample_cfg sample_limiter sample_fs) st \<and>
        sys_results st = Some [success_result, failure_result (JsError ''net'')] \<and>
        expected_results sample_cfg = Some [success_result, failure_result (JsError ''net'')]"
proof -
  obtain st where r: "sys_run sample_cfg [(0, Ev), (0, Ev), (0, Ev), (1, Ev), (1, Unlink)] (launch sample_cfg sample_limiter sample_fs) = Some st"
    and res: "sys_results st = Some [success_result, failure_result (JsError ''net'')]"
    using sample_run by blast
  have reach: "sys_reach sample_cfg (launch sample_cfg sample_limiter sample_fs) st" using r by (rule sys_run_reach)
  show ?thesis using sample_idle reach res results_independent_of_interleaving [OF sample_idle reach res] by blast
qed

lemma hang_first_only:
  assumes "concurrency l = 1" and "lim_idle l" and "cfg \<noteq> []" and "expected_settle (snd (cfg ! 0)) = None"
      and "sys_reach cfg st0 st" and "st0 = launch cfg l s"
  shows "\<forall>j. 0 < j \<longrightarrow> j < length cfg \<longrightarrow> tasks st ! j = None"
  using assms(5,6)
proof (induction rule: sys_reach.induct)
  case (refl st)
  then show ?case using assms(1,2) by (simp add: launch_eq)
next
  case (step st0' st' x st'')
  have inv: "sys_inv cfg st'" using assms(2) step.hyps(1) step.prems by (simp add: reach_launch_inv)
  obtain i a where x: "x = (i, a)" by (cases x)
  have len: "length (tasks st') = length cfg" by (rule sys_invD(1) [OF inv])
  from step.hyps(2) x have "sys_step cfg (i, a) st' = Some st''" by simp
  then show ?case
  proof (rule sys_step_SomeE)
    fix t t' s'
    assume i: "i < length (tasks st')" and ti: "tasks st' ! i = Some t"
      and ds: "dl_step a (t, fsys st') = Some (t', s')" and r: "returned t'"
    have i0: "i = 0" using step.IH step.prems i ti len by (cases i) auto
    have "dl_inv (snd (cfg ! 0)) t'" using sys_invD(6) [OF inv] i ti len i0 dl_step_inv [OF ds] by simp
    then have False using r assms(4) by (auto simp: dl_inv_def returned_def split: dl_phase.splits)
    then show ?thesis ..
  next
    fix t t' s'
    assume i: "i < length (tasks st')" and ti: "tasks st' ! i = Some t"
      and st'': "st'' = st'\<lparr>tasks := (tasks st')[i := Some t'], fsys := s'\<rparr>"
    have i0: "i = 0" using step.IH step.prems i ti len by (cases i) auto
    show ?thesis using step.IH step.prems st'' i0 by simp
  qed
qed

text \<open>C23: with a concurrency of 1, a first item whose download never settles keeps its
  slot forever: no later item is ever admitted.\<close>

theorem hang_blocks_queue:
  assumes "concurrency l = 1" and "lim_idle l" and "expected_settle (snd (cfg ! 0)) = None"
      and "sys_reach cfg (launch cfg l s) st" and "0 < j" and "j < length cfg"
  shows "tasks st ! j = None"
proof -
  have "cfg \<noteq> []" using assms(6) by auto
  then show ?thesis using hang_first_only [OF assms(1,2) _ assms(3,4) HOL.refl] assms(5,6) by blast
qed

lemma sum_list_map2_update:
  fixes f :: "'a \<Rightarrow> 'b \<Rightarrow> nat"
  shows "i < length xs \<Longrightarrow> length xs = length ys \<Longrightarrow>
   sum_list (map2 f xs (ys[i := y])) + f (xs ! i) (ys ! i) = sum_list (map2 f xs ys) + f (xs ! i) y"
proof (induction xs arbitrary: ys i)
  case (Cons x xs)
  then obtain z zs where ys: "ys = z # zs" by (cases ys) auto
  show ?case
  proof (cases i)
    case 0
    then show ?thesis using ys by simp
  next
    case (Suc j)
    then have "sum_list (map2 f xs (zs[j := y])) + f (xs ! j) (zs ! j) = sum_list (map2 f xs zs) + f (xs ! j) y"
      using Cons ys by simp
    then show ?thesis using ys Suc by simp
  qed
qed simp

lemma settle_phase_weight: "phase_weight (settle_phase e ph) \<le> phase_weight ph"
  by (cases e; cases ph) (simp_all add: phase_weight_def)

lemma dl_step_measure:
  "dl_step a (t, s) = Some (t', s') \<Longrightarrow>
   length (pending t') + phase_weight (phase t') < length (pending t) + phase_weight (phase t)"
proof (cases a)
  case Ev
  assume st: "dl_step a (t, s) = Some (t', s')"
  show ?thesis
  proof (cases "pending t")
    case Nil
    with st Ev show ?thesis by (simp add: dl_event_Nil)
  next
    case (Cons e es)
    with st Ev have "pending t' = es" "phase t' = settle_phase e (phase t)"
      by (auto simp: dl_event_Cons)
    with Cons show ?thesis using settle_phase_weight [of e "phase t"] by simp
  qed
next
  case Unlink
  assume "dl_step a (t, s) = Some (t', s')"
  with Unlink show ?thesis by (auto simp: dl_unlink_def phase_weight_def split: dl_phase.splits)
qed

lemma start_measure: "task_measure c (Some (downloadSingle_start p (snd c))) < task_measure c None"
  by (simp add: task_measure_def downloadSingle_start_def phase_weight_def split: option.splits)



lemma sum_measure_update:
  "i < length cfg \<Longrightarrow> length ts = length cfg \<Longrightarrow>
   sum_list (map2 task_measure cfg (ts[i := x])) + task_measure (cfg ! i) (ts ! i)
   = sum_list (map2 task_measure cfg ts) + task_measure (cfg ! i) x"
  by (rule sum_list_map2_update) simp_all

lemma admit_measure:
  assumes inv: "sys_inv cfg st" and i: "i < length (tasks st)" and ti: "tasks st ! i = Some t"
  shows "sum_list (map2 task_measure cfg (admit cfg (fst (lim_step Done (lim st))) ((tasks st)[i := Some t'])))
          \<le> sum_list (map2 task_measure cfg ((tasks st)[i := Some t']))"
proof (cases "fst (lim_step Done (lim st))")
  case None
  then show ?thesis by (simp add: admit_def)
next
  case (Some k)
  let ?ts = "(tasks st)[i := Some t']"
  have len: "length (tasks st) = length cfg" by (rule sys_invD(1) [OF inv])
  have q: "lim_queue (lim st) \<noteq> []" "k = hd (lim_queue (lim st))"
    using Some by (simp_all add: resumeNext_def split: if_splits)
  obtain k0 where k0: "k0 \<le> length cfg" "lim_queue (lim st) = [k0..<length cfg]"
      "\<forall>j < length cfg. (tasks st ! j \<noteq> None) = (j < k0)"
    using sys_invD(2) [OF inv] by blast
  have kk: "k = k0" "k < length cfg" using q k0(2) by (auto simp: upt_conv_Cons)
  have "i < k0" using k0(3) i ti len by auto
  then have ik: "i \<noteq> k" using kk by simp
  have "tasks st ! k = None" using k0(3) kk by auto
  then have tk: "?ts ! k = None" using ik by simp
  have eq: "sum_list (map2 task_measure cfg (?ts[k := Some (start_of cfg k)])) + task_measure (cfg ! k) (?ts ! k)
        = sum_list (map2 task_measure cfg ?ts) + task_measure (cfg ! k) (Some (start_of cfg k))"
    by (rule sum_measure_update) (use kk len in simp_all)
  have lt: "task_measure (cfg ! k) (Some (start_of cfg k)) < task_measure (cfg ! k) (?ts ! k)"
    unfolding tk start_of_def by (rule start_measure)
  have adm: "admit cfg (fst (lim_step Done (lim st))) ?ts = ?ts[k := Some (start_of cfg k)]"
    using Some by (simp only: admit_def start_task_def option.case)
  show ?thesis unfolding adm using eq lt by linarith
qed

lemma slot_measure_decreases:
  assumes inv: "sys_inv cfg st" and i: "i < length (tasks st)" and ti: "tasks st ! i = Some t"
      and ds: "dl_step a (t, fsys st) = Some (t', s')"
  shows "sum_list (map2 task_measure cfg ((tasks st)[i := Some t'])) < sys_measure cfg st"
proof -
  have len: "length (tasks st) = length cfg" by (rule sys_invD(1) [OF inv])
  have eq: "sum_list (map2 task_measure cfg ((tasks st)[i := Some t'])) + task_measure (cfg ! i) (tasks st ! i)
      = sum_list (map2 task_measure cfg (tasks st)) + task_measure (cfg ! i) (Some t')"
    by (rule sum_measure_update) (use i len in simp_all)
  have lt: "task_measure (cfg ! i) (Some t') < task_measure (cfg ! i) (tasks st ! i)"
    unfolding ti task_measure_def option.case by (rule dl_step_measure [OF ds])
  show ?thesis unfolding sys_measure_def using eq lt by linarith
qed

lemma sys_step_measure:
  assumes inv: "sys_inv cfg st" and stp: "sys_step cfg x st = Some st'"
  shows "sys_measure cfg st' < sys_measure cfg st"
proof -
  obtain i a where x: "x = (i, a)" by (cases x)
  from stp x have "sys_step cfg (i, a) st = Some st'" by simp
  then show ?thesis
  proof (rule sys_step_SomeE)
    fix t t' s'
    assume i: "i < length (tasks st)" and ti: "tasks st ! i = Some t"
      and ds: "dl_step a (t, fsys st) = Some (t', s')"
      and st': "st' = \<lparr>lim = snd (lim_step Done (lim st)),
              tasks = admit cfg (fst (lim_step Done (lim st))) ((tasks st)[i := Some t']), fsys = s'\<rparr>"
    have "sys_measure cfg st' \<le> sum_list (map2 task_measure cfg ((tasks st)[i := Some t']))"
      unfolding st' sys_measure_def sys.select_convs by (rule admit_measure [OF inv i ti])
    with slot_measure_decreases [OF inv i ti ds] show ?thesis by linarith
  next
    fix t t' s'
    assume i: "i < length (tasks st)" and ti: "tasks st ! i = Some t"
      and ds: "dl_step a (t, fsys st) = Some (t', s')"
      and st': "st' = st\<lparr>tasks := (tasks st)[i := Some t'], fsys := s'\<rparr>"
    show ?thesis using slot_measure_decreases [OF inv i ti ds] unfolding st' sys_measure_def by simp
  qed
qed

lemma all_some_None: "all_some xs = None \<longleftrightarrow> (\<exists>i < length xs. xs ! i = None)"
proof (induction xs)
  case (Cons x xs)
  have "(\<exists>i < length (x # xs). (x # xs) ! i = None) = (x = None \<or> (\<exists>i < length xs. xs ! i = None))"
    by (auto simp: less_Suc_eq_0_disj)
  with Cons show ?case by (cases x) auto
qed simp

lemma sys_step_enabled:
  "i < length (tasks st) \<Longrightarrow> tasks st ! i = Some t \<Longrightarrow> dl_step a (t, fsys st) = Some (t', s') \<Longrightarrow>
   \<exists>st'. sys_step cfg (i, a) st = Some st'"
  by (simp add: sys_step_def split_def Let_def)

lemma running_task_enabled:
  assumes "dl_inv env t" and "\<not> returned t" and "expected_settle env \<noteq> None"
  shows "\<exists>a t' s'. dl_step a (t, s) = Some (t', s')"
proof (cases "phase t")
  case Piping
  then have "first_settle (pending t) \<noteq> None" using assms(1,3) by (simp add: dl_inv_def)
  then obtain e es where "pending t = e # es" by (cases "pending t") auto
  then show ?thesis by (metis dl_event_Cons dl_step.simps(1))
next
  case (Unlinking v)
  then show ?thesis by (metis dl_unlink_Unlinking dl_step.simps(2))
next
  case (Returned r)
  then show ?thesis using assms(2) by (simp add: returned_def)
qed

text \<open>Progress: as long as some result is missing and every script settles, some
  download can take a step; nothing deadlocks.\<close>

lemma sys_progress:
  assumes inv: "sys_inv cfg st" and N: "0 < concurrency (lim st)"
      and settle: "\<forall>c \<in> set cfg. expected_settle (snd c) \<noteq> None"
      and nores: "sys_results st = None"
  shows "\<exists>x st'. sys_step cfg x st = Some st'"
proof (cases "\<exists>i < length (tasks st). running (tasks st ! i)")
  case True
  then obtain i t where i: "i < length (tasks st)" and ti: "tasks st ! i = Some t" and nr: "\<not> returned t"
    by (auto simp: running_def split: option.splits)
  have len: "length (tasks st) = length cfg" by (rule sys_invD(1) [OF inv])
  have di: "dl_inv (snd (cfg ! i)) t" using sys_invD(6) [OF inv] i ti len by simp
  have es: "expected_settle (snd (cfg ! i)) \<noteq> None" using settle i len by simp
  obtain a t' s' where "dl_step a (t, fsys st) = Some (t', s')"
    using running_task_enabled [OF di nr es] by blast
  then show ?thesis using sys_step_enabled [OF i ti] by blast
next
  case False
  have len: "length (tasks st) = length cfg" by (rule sys_invD(1) [OF inv])
  obtain i where i: "i < length (tasks st)" and tr: "task_result (tasks st ! i) = None"
    using nores by (auto simp: sys_results_def all_some_None)
  have "tasks st ! i = None"
    using False i tr by (auto simp: task_result_def running_def returned_def split: option.splits dl_phase.splits)
  moreover obtain k where k: "k \<le> length cfg" "lim_queue (lim st) = [k..<length cfg]"
      "\<forall>j < length cfg. (tasks st ! j \<noteq> None) = (j < k)"
    using sys_invD(2) [OF inv] by blast
  ultimately have "k \<le> i" using i len by auto
  then have "lim_queue (lim st) \<noteq> []" using k(2) i len by auto
  then have "activeCount (lim st) = concurrency (lim st)" by (rule sys_invD(5) [OF inv])
  then have "0 < length (filter running (tasks st))" using sys_invD(3) [OF inv] N by simp
  then obtain ot where "ot \<in> set (tasks st)" "running ot" by (auto simp: length_greater_0_conv filter_empty_conv)
  then have "\<exists>i < length (tasks st). running (tasks st ! i)" by (auto simp: in_set_conv_nth)
  with False show ?thesis by blast
qed

lemma sys_run_measure:
  "sys_inv cfg st \<Longrightarrow> sys_run cfg xs st = Some st' \<Longrightarrow> length xs + sys_measure cfg st' \<le> sys_measure cfg st"
proof (induction xs arbitrary: st)
  case Nil
  then show ?case by simp
next
  case (Cons x xs)
  then obtain st1 where s1: "sys_step cfg x st = Some st1" and r: "sys_run cfg xs st1 = Some st'"
    by (auto split: option.splits)
  have "sys_inv cfg st1" using s1 Cons.prems(1) by (rule sys_step_inv)
  then have "length xs + sys_measure cfg st' \<le> sys_measure cfg st1" using r by (rule Cons.IH)
  moreover have "sys_measure cfg st1 < sys_measure cfg st" using Cons.prems(1) s1 by (rule sys_step_measure)
  ultimately show ?case by simp
qed

text \<open>C22: whatever the scripts, no interleaving runs forever: every schedule the system
  accepts from the launch is no longer than a bound fixed by the scripts (the number of
  their events plus a constant per item).\<close>

theorem every_interleaving_finite:
  assumes "lim_idle l" and "sys_run cfg xs (launch cfg l s) = Some st"
  shows "length xs \<le> sys_measure cfg (launch cfg l s)"
  using sys_run_measure [OF launch_inv [OF assms(1)] assms(2)] by simp

lemma inv_completion:
  assumes "sys_inv cfg st" and "0 < concurrency (lim st)" and "\<forall>c \<in> set cfg. expected_settle (snd c) \<noteq> None"
  shows "\<exists>st'. sys_reach cfg st st' \<and> sys_results st' \<noteq> None"
  using assms(1,2)
proof (induction "sys_measure cfg st" arbitrary: st rule: less_induct)
  case less
  show ?case
  proof (cases "sys_results st = None")
    case False
    then show ?thesis using sys_reach.refl by blast
  next
    case True
    obtain x st1 where s1: "sys_step cfg x st = Some st1"
      using sys_progress [OF less.prems(1,2) assms(3) True] by blast
    have lt: "sys_measure cfg st1 < sys_measure cfg st" using less.prems(1) s1 by (rule sys_step_measure)
    have inv1: "sys_inv cfg st1" using s1 less.prems(1) by (rule sys_step_inv)
    have N1: "0 < concurrency (lim st1)" using sys_step_concurrency [OF s1] less.prems(2) by simp
    obtain st' where r2: "sys_reach cfg st1 st'" and res: "sys_results st' \<noteq> None"
      using less.hyps [OF lt inv1 N1] by blast
    have "sys_reach cfg st st1" using sys_reach.refl s1 by (rule sys_reach.step)
    then have "sys_reach cfg st st'" using r2 by (rule sys_reach_trans)
    with res show ?thesis by blast
  qed
qed

lemma reach_completion:
  assumes "lim_idle l" and "0 < concurrency l" and "\<forall>c \<in> set cfg. expected_settle (snd c) \<noteq> None"
      and "sys_reach cfg (launch cfg l s) st"
  shows "\<exists>st'. sys_reach cfg st st' \<and> sys_results st' \<noteq> None"
proof -
  have inv: "sys_inv cfg st" using assms(1,4) by (rule reach_launch_inv)
  have N: "0 < concurrency (lim st)" using reach_launch_concurrency [OF assms(1,4)] assms(2) by simp
  show ?thesis using inv_completion [OF inv N assms(3)] .
qed

text \<open>C13: when every item's script settles and the concurrency is positive, the run
  always completes: from every reachable state some continuation reaches a state where
  every download has returned, so \<open>Promise.all\<close> resolves and the report is printed.\<close>

theorem playlist_run_completes:
  assumes "lim_idle l" and "0 < concurrency l" and "\<forall>c \<in> set cfg. expected_settle (snd c) \<noteq> None"
      and "sys_reach cfg (launch cfg l s) st"
  shows "\<exists>st'. sys_reach cfg st st' \<and> sys_results st' \<noteq> None"
  using assms by (rule reach_completion)

lemma sample_reach_final:
  "\<exists>st. sys_reach sample_cfg (launch sample_cfg sample_limiter sample_fs) st \<and>
        sys_run sample_cfg [(0, Ev), (0, Ev), (0, Ev), (1, Ev), (1, Unlink)] (launch sample_cfg sample_limiter sample_fs) = Some st \<and>
        tasks st = [Some \<lparr>out_path = ''o/a.mp3'', ws_fd = Some 0, ws_pos = 1, ws_buf = [], pending = [],
                  phase = Returned success_result\<rparr>,
           Some \<lparr>out_path = ''o/b.mp3'', ws_fd = None, ws_pos = 0, ws_buf = [], pending = [],
                  phase = Returned (failure_result (JsError ''net''))\<rparr>]"
proof -
  obtain st where r: "sys_run sample_cfg [(0, Ev), (0, Ev), (0, Ev), (1, Ev), (1, Unlink)] (launch sample_cfg sample_limiter sample_fs) = Some st"
    using sample_run by blast
  then show ?thesis using sample_run_tasks sys_run_reach [OF r] by auto
qed

theorem admission_fifo_witness:
  "lim_idle sample_limiter \<and> sys_reach sample_cfg (launch sample_cfg sample_limiter sample_fs) (launch sample_cfg sample_limiter sample_fs) \<and>
   (\<exists>k \<le> length sample_cfg. lim_queue (lim (launch sample_cfg sample_limiter sample_fs)) = [k..<length sample_cfg] \<and>
      (\<forall>i < length sample_cfg. tasks (launch sample_cfg sample_limiter sample_fs) ! i \<noteq> None \<longleftrightarrow> i < k))"
  using sample_idle sys_reach.refl admission_fifo [OF sample_idle sys_reach.refl] by blast

theorem no_idle_slot_witness:
  "lim_idle sample_limiter \<and> sys_reach sample_cfg (launch sample_cfg sample_limiter sample_fs) (launch sample_cfg sample_limiter sample_fs) \<and>
   lim_queue (lim (launch sample_cfg sample_limiter sample_fs)) = [1] \<and>
   length (filter running (tasks (launch sample_cfg sample_limiter sample_fs))) = concurrency sample_limiter"
proof -
  have q: "lim_queue (lim (launch sample_cfg sample_limiter sample_fs)) = [1]"
    by code_simp
  then have "lim_queue (lim (launch sample_cfg sample_limiter sample_fs)) \<noteq> []" by simp
  then show ?thesis using sample_idle sys_reach.refl q no_idle_slot [OF sample_idle sys_reach.refl] by blast
qed

theorem hang_blocks_queue_witness:
  "concurrency sample_limiter = 1 \<and> lim_idle sample_limiter \<and> expected_settle (snd (hang_cfg ! 0)) = None \<and>
   sys_reach hang_cfg (launch hang_cfg sample_limiter sample_fs) (launch hang_cfg sample_limiter sample_fs) \<and>
   (0::nat) < 1 \<and> 1 < length hang_cfg \<and> tasks (launch hang_cfg sample_limiter sample_fs) ! 1 = None"
proof -
  have h: "concurrency sample_limiter = 1" "expected_settle (snd (hang_cfg ! 0)) = None" "(0::nat) < 1" "1 < length hang_cfg"
    by (simp_all add: sample_limiter_def hang_cfg_def expected_settle_def)
  show ?thesis
    using h sample_idle sys_reach.refl hang_blocks_queue [OF h(1) sample_idle h(2) sys_reach.refl h(3,4)] by blast
qed

theorem every_interleaving_finite_witness:
  "\<exists>st. lim_idle sample_limiter \<and>
        sys_run sample_cfg [(0, Ev), (0, Ev), (0, Ev), (1, Ev), (1, Unlink)] (launch sample_cfg sample_limiter sample_fs) = Some st \<and>
        length [(0::nat, Ev), (0, Ev), (0, Ev), (1, Ev), (1, Unlink)] \<le> sys_measure sample_cfg (launch sample_cfg sample_limiter sample_fs)"
proof -
  obtain st where r: "sys_run sample_cfg [(0, Ev), (0, Ev), (0, Ev), (1, Ev), (1, Unlink)] (launch sample_cfg sample_limiter sample_fs) = Some st"
    using sample_run by blast
  show ?thesis using sample_idle r every_interleaving_finite [OF sample_idle r] by blast
qed

theorem playlist_run_completes_witness:
  "lim_idle sample_limiter \<and> 0 < concurrency sample_limiter \<and>
   list_all (\<lambda>c. expected_settle (snd c) \<noteq> None) sample_cfg \<and>
   sys_reach sample_cfg (launch sample_cfg sample_limiter sample_fs) (launch sample_cfg sample_limiter sample_fs) \<and>
   (\<exists>st'. sys_reach sample_cfg (launch sample_cfg sample_limiter sample_fs) st' \<and> sys_results st' \<noteq> None)"
proof -
  have h: "0 < concurrency sample_limiter" "\<forall>c \<in> set sample_cfg. expected_settle (snd c) \<noteq> None"
    by (simp_all add: sample_limiter_def sample_cfg_def expected_settle_def)
  have la: "list_all (\<lambda>c. expected_settle (snd c) \<noteq> None) sample_cfg" using h(2) by (simp add: list_all_iff)
  show ?thesis using sample_idle h(1) la sys_reach.refl playlist_run_completes [OF sample_idle h sys_reach.refl] by blast
qed

text \<open>C19: the launch, which runs p-limit's operations one by one (n submissions, then
  the n admission checks they schedule), is equivalent to the closed form: the first
  min(n, concurrency) items are started, the others wait in the queue in playlist
  order.\<close>

theorem launch_closed_form:
  assumes "lim_idle l"
  shows "launch cfg l s =
    \<lparr>lim = l\<lparr>lim_queue := [min (length cfg) (concurrency l)..<length cfg],
               activeCount := min (length cfg) (concurrency l)\<rparr>,
     tasks = map (\<lambda>i. if i < min (length cfg) (concurrency l) then Some (start_of cfg i) else None) [0..<length cfg],
     fsys = s\<rparr>"
  using assms by (rule launch_eq)

theorem launch_closed_form_witness:
  "lim_idle sample_limiter \<and>
   launch sample_cfg sample_limiter sample_fs =
     \<lparr>lim = \<lparr>concurrency = 1, activeCount = 1, lim_queue = [1]\<rparr>,
      tasks = [Some (start_of sample_cfg 0), None], fsys = sample_fs\<rparr>"
  using sample_idle launch_closed_form [OF sample_idle, of sample_cfg sample_fs]
  by (simp add: sample_cfg_def sample_limiter_def upt_rec)

end
