(* ===== verification/Orchestrator.thy ===== *)
theory Orchestrator
  imports Url Runs
begin

text \<open>
  The class \<open>YoutubeDownloader\<close> of \<open>src/src/downloader.ts\<close> as a whole: the
  constructor (lines 41--46) with \<open>validateInputs\<close> (48--52), \<open>new URL\<close> and
  \<open>pLimit\<close>; \<open>ensureOutputFolder\<close> (54--58); and \<open>downloadPlaylist\<close> (90--108),
  which reads the playlist identifier, creates the folder, prints the banner,
  asks the playlist lister for the items, fans the downloads out through the
  limiter and prints the report.  The two libraries the class calls are
  parameters: \<open>ytpl\<close>, the playlist lister, a function from the identifier to
  the items and title or the error it rejects with; \<open>ytdl\<close>, the media
  fetcher, a function from an item's URL to the script of its streams' events.
  \<open>createSlug\<close> is a parameter too.  A run is driven by a schedule, the order in
  which the event loop delivers the downloads' events; a schedule that names a
  step that is not enabled is not a behaviour of the program (\<open>Unscheduled\<close>).
\<close>

record download_options =
  opt_format :: "string option"
  opt_concurrency :: "int option"

record downloader =
  outputFolder :: path
  dl_url :: url
  limit :: "nat limiter"

definition DEFAULT_FORMAT :: string where
  "DEFAULT_FORMAT = ''.mp3''"

definition DEFAULT_CONCURRENCY :: int where
  "DEFAULT_CONCURRENCY = 30"

definition VERSION :: string where
  "VERSION = ''1.0.0''"

definition inputs_required :: jsval where
  "inputs_required = JsError ''URL and output folder are required''"

definition invalid_url :: jsval where
  "invalid_url = JsError ''Invalid URL''"

definition validateInputs :: "string \<Rightarrow> path \<Rightarrow> jsval option" where
  "validateInputs u f = (if u = [] \<or> f = [] then Some inputs_required else None)"

text \<open>\<open>options?.concurrency ?? YoutubeDownloader.DEFAULT_CONCURRENCY\<close>\<close>

definition effective_concurrency :: "download_options option \<Rightarrow> int" where
  "effective_concurrency opts =
     (case opts of None \<Rightarrow> DEFAULT_CONCURRENCY
      | Some op \<Rightarrow> (case opt_concurrency op of None \<Rightarrow> DEFAULT_CONCURRENCY | Some c \<Rightarrow> c))"

definition construct :: "string \<Rightarrow> path \<Rightarrow> download_options option \<Rightarrow> jsval + downloader" where
  "construct u f opts =
     (case validateInputs u f of
        Some e \<Rightarrow> Inl e
      | None \<Rightarrow>
         (case url_parse u of
            None \<Rightarrow> Inl invalid_url
          | Some x \<Rightarrow>
             (case pLimit (effective_concurrency opts) of
                Inl e \<Rightarrow> Inl e
              | Inr l \<Rightarrow> Inr \<lparr>outputFolder = f, dl_url = x, limit = l\<rparr>)))"

definition ensureOutputFolder :: "path \<Rightarrow> fs \<Rightarrow> jsval + fs" where
  "ensureOutputFolder f s = (if existsSync s f then Inr s else fs_mkdir_recursive f s)"

definition not_a_playlist :: jsval where
  "not_a_playlist = JsError ''The provided URL is not a playlist''"

definition banner_line :: "channel \<times> string" where
  "banner_line = (Stdout, ''Youtube Downloader '' @ VERSION)"

text \<open>\<open>console.log('Downloading playlist:', title)\<close> joins its arguments with a space.\<close>

definition title_line :: "string \<Rightarrow> channel \<times> string" where
  "title_line t = (Stdout, ''Downloading playlist: '' @ t)"

text \<open>
  \<open>this.downloadSingle(item.shortUrl, item.title)\<close>: the output path with the
  default format (the third argument is not passed), and the script the fetcher
  gives for the item's URL.
\<close>

definition item_cfg_of :: "(string \<Rightarrow> string) \<Rightarrow> path \<Rightarrow> (string \<Rightarrow> dl_env) \<Rightarrow> playlist_item \<Rightarrow> item_cfg" where
  "item_cfg_of slug f ytdl it = (getOutputPath slug f (title it) DEFAULT_FORMAT, ytdl (shortUrl it))"

datatype pl_status = Threw jsval | InFlight sys | Completed sys | Unscheduled

record pl_run =
  pl_console :: console
  pl_fs :: fs
  lister_calls :: "string list"
  pl_status :: pl_status

definition fan_out ::
  "(string \<Rightarrow> string) \<Rightarrow> (string \<Rightarrow> dl_env) \<Rightarrow> (nat \<times> dl_action) list \<Rightarrow> downloader \<Rightarrow> fs \<Rightarrow>
   playlist_item list \<Rightarrow> console \<Rightarrow> string list \<Rightarrow> pl_run" where
  "fan_out slug ytdl sched d s items c calls =
     (let cfg = map (item_cfg_of slug (outputFolder d) ytdl) items
      in case sys_run cfg sched (launch cfg (limit d) s) of
           None \<Rightarrow> \<lparr>pl_console = c, pl_fs = s, lister_calls = calls, pl_status = Unscheduled\<rparr>
         | Some st \<Rightarrow>
            (case sys_results st of
               None \<Rightarrow> \<lparr>pl_console = c, pl_fs = fsys st, lister_calls = calls, pl_status = InFlight st\<rparr>
             | Some rs \<Rightarrow>
                (let (out, e) = logResults rs items
                 in \<lparr>pl_console = c @ out, pl_fs = fsys st, lister_calls = calls,
                     pl_status = (case e of None \<Rightarrow> Completed st | Some v \<Rightarrow> Threw v)\<rparr>)))"

definition downloadPlaylist ::
  "(string \<Rightarrow> string) \<Rightarrow> (string \<Rightarrow> jsval + playlist_item list \<times> string) \<Rightarrow> (string \<Rightarrow> dl_env) \<Rightarrow>
   (nat \<times> dl_action) list \<Rightarrow> downloader \<Rightarrow> fs \<Rightarrow> pl_run" where
  "downloadPlaylist slug ytpl ytdl sched d s =
     (case searchParams_get (dl_url d) ''list'' of
        None \<Rightarrow> \<lparr>pl_console = [], pl_fs = s, lister_calls = [], pl_status = Threw not_a_playlist\<rparr>
      | Some pid \<Rightarrow>
         if pid = [] then \<lparr>pl_console = [], pl_fs = s, lister_calls = [], pl_status = Threw not_a_playlist\<rparr>
         else
          (case ensureOutputFolder (outputFolder d) s of
             Inl e \<Rightarrow> \<lparr>pl_console = [], pl_fs = s, lister_calls = [], pl_status = Threw e\<rparr>
           | Inr s1 \<Rightarrow>
              (case ytpl pid of
                 Inl e \<Rightarrow> \<lparr>pl_console = [banner_line], pl_fs = s1, lister_calls = [pid], pl_status = Threw e\<rparr>
               | Inr (items, t) \<Rightarrow>
                   fan_out slug ytdl sched d s1 items [banner_line, title_line t] [pid])))"

text \<open>
  Fixtures for the examples: the spec's playlist A, B, C whose item B fails to
  fetch, a two-item playlist A, B, an empty file system, a downloader as the
  constructor builds it for \<open>https://www.youtube.com/playlist?list=PL1\<close>, and one
  interleaving of the three downloads.
\<close>

definition ok_script :: dl_env where
  "ok_script = \<lparr>sync_throw = None, events = [Opened, Chunk ''a'', Finish]\<rparr>"

definition bad_script :: dl_env where
  "bad_script = \<lparr>sync_throw = None, events = [ReadFail (JsError ''fetch failed'')]\<rparr>"

definition abc_fetch :: "string \<Rightarrow> dl_env" where
  "abc_fetch u = (if u = shortUrl (sample_item ''B'') then bad_script else ok_script)"

definition abc_lister :: "string \<Rightarrow> jsval + playlist_item list \<times> string" where
  "abc_lister pid =
     (if pid = ''PL1'' then Inr ([sample_item ''A'', sample_item ''B'', sample_item ''C''], ''Mix'')
      else if pid = ''PL2'' then Inr ([sample_item ''A'', sample_item ''B''], ''Pair'')
      else Inl (JsError ''This playlist does not exist''))"

definition abc_fs :: fs where
  "abc_fs = \<lparr>entries = Map.empty, inodes = Map.empty, next_ino = 0, dirs = {}\<rparr>"

definition abc_downloader :: downloader where
  "abc_downloader = \<lparr>outputFolder = ''music'', dl_url = \<lparr>url_scheme = ''https'', url_query = Some ''list=PL1''\<rparr>,
                      limit = \<lparr>concurrency = 30, activeCount = 0, lim_queue = []\<rparr>\<rparr>"

definition abc_sched :: "(nat \<times> dl_action) list" where
  "abc_sched = [(1, Ev), (0, Ev), (2, Ev), (1, Unlink), (2, Ev), (0, Ev), (2, Ev), (0, Ev)]"

subsection \<open>Lemmas\<close>

lemma sys_results_length: "sys_results st = Some rs \<Longrightarrow> length rs = length (tasks st)"
  by (simp add: sys_results_def all_some_iff)

lemma results_none_running:
  assumes "sys_results st = Some rs"
  shows "filter running (tasks st) = []"
proof -
  have "\<not> running ot" if mem: "ot \<in> set (tasks st)" for ot
  proof -
    obtain i where i: "i < length (tasks st)" and ot: "ot = tasks st ! i"
      using mem unfolding in_set_conv_nth by blast
    have "task_result ot = Some (rs ! i)"
      using assms i ot by (simp add: sys_results_def all_some_iff)
    then show ?thesis
      by (auto simp: task_result_def running_def returned_def split: option.splits dl_phase.splits)
  qed
  then show ?thesis by (simp add: filter_empty_conv)
qed

lemma downloadPlaylist_fan_out:
  assumes "searchParams_get (dl_url d) ''list'' = Some pid" and "pid \<noteq> []"
      and "ensureOutputFolder (outputFolder d) s = Inr s1" and "ytpl pid = Inr (items, t)"
  shows "downloadPlaylist slug ytpl ytdl sched d s = fan_out slug ytdl sched d s1 items [banner_line, title_line t] [pid]"
  using assms by (simp add: downloadPlaylist_def)

lemma downloadPlaylist_CompletedE:
  assumes "pl_status (downloadPlaylist slug ytpl ytdl sched d s) = Completed st"
  obtains pid s1 items t rs where "searchParams_get (dl_url d) ''list'' = Some pid" and "pid \<noteq> []"
    and "ensureOutputFolder (outputFolder d) s = Inr s1" and "ytpl pid = Inr (items, t)"
    and "sys_run (map (item_cfg_of slug (outputFolder d) ytdl) items) sched
           (launch (map (item_cfg_of slug (outputFolder d) ytdl) items) (limit d) s1) = Some st"
    and "sys_results st = Some rs"
    and "downloadPlaylist slug ytpl ytdl sched d s =
           \<lparr>pl_console = [banner_line, title_line t] @ fst (logResults rs items), pl_fs = fsys st,
            lister_calls = [pid], pl_status = Completed st\<rparr>"
  using assms
  by (auto simp: downloadPlaylist_def fan_out_def Let_def
           split: option.splits if_splits sum.splits prod.splits)

lemma completed_cfg_length:
  assumes "lim_idle l" and "sys_run cfg sched (launch cfg l s) = Some st" and "sys_results st = Some rs"
  shows "length rs = length cfg"
proof -
  have "sys_inv cfg st" using assms(1) sys_run_reach [OF assms(2)] by (rule reach_launch_inv)
  then show ?thesis using sys_results_length [OF assms(3)] sys_invD(1) by simp
qed

lemma completed_report:
  assumes "lim_idle (limit d)" and "pl_status (downloadPlaylist slug ytpl ytdl sched d s) = Completed st"
  shows "\<exists>pid items t rs. ytpl pid = Inr (items, t) \<and> lister_calls (downloadPlaylist slug ytpl ytdl sched d s) = [pid] \<and>
           expected_results (map (item_cfg_of slug (outputFolder d) ytdl) items) = Some rs \<and>
           pl_console (downloadPlaylist slug ytpl ytdl sched d s) = [banner_line, title_line t] @ render_report (report_of (zip items rs))"
proof -
  obtain pid s1 items t rs where y: "ytpl pid = Inr (items, t)"
    and r: "sys_run (map (item_cfg_of slug (outputFolder d) ytdl) items) sched
           (launch (map (item_cfg_of slug (outputFolder d) ytdl) items) (limit d) s1) = Some st"
    and res: "sys_results st = Some rs"
    and dp: "downloadPlaylist slug ytpl ytdl sched d s =
           \<lparr>pl_console = [banner_line, title_line t] @ fst (logResults rs items), pl_fs = fsys st,
            lister_calls = [pid], pl_status = Completed st\<rparr>"
    using assms(2) by (rule downloadPlaylist_CompletedE)
  have exp: "expected_results (map (item_cfg_of slug (outputFolder d) ytdl) items) = Some rs"
    using assms(1) sys_run_reach [OF r] res by (rule reached_results_expected)
  have "length rs = length items" using completed_cfg_length [OF assms(1) r res] by simp
  then have "fst (logResults rs items) = render_report (report_of (zip items rs))"
    by (simp add: logResults_render)
  then show ?thesis using y exp dp by auto
qed

lemma completed_lim_idle:
  assumes "lim_idle (limit d)" and "0 < concurrency (limit d)"
      and "pl_status (downloadPlaylist slug ytpl ytdl sched d s) = Completed st"
  shows "lim_idle (lim st) \<and> concurrency (lim st) = concurrency (limit d)"
proof -
  obtain pid s1 items t rs where
        r: "sys_run (map (item_cfg_of slug (outputFolder d) ytdl) items) sched
           (launch (map (item_cfg_of slug (outputFolder d) ytdl) items) (limit d) s1) = Some st"
    and res: "sys_results st = Some rs"
    using assms(3) by (rule downloadPlaylist_CompletedE)
  note reach = sys_run_reach [OF r]
  have inv: "sys_inv (map (item_cfg_of slug (outputFolder d) ytdl) items) st"
    using assms(1) reach by (rule reach_launch_inv)
  have c: "concurrency (lim st) = concurrency (limit d)" using reach_launch_concurrency [OF assms(1) reach] .
  have a0: "activeCount (lim st) = 0" using sys_invD(3) [OF inv] results_none_running [OF res] by simp
  have "lim_queue (lim st) = []"
  proof (rule ccontr)
    assume "lim_queue (lim st) \<noteq> []"
    then have "activeCount (lim st) = concurrency (lim st)" using sys_invD(5) [OF inv] by simp
    with a0 c assms(2) show False by simp
  qed
  then show ?thesis using a0 c by (simp add: lim_idle_def)
qed

lemma completion_reachable:
  assumes "lim_idle (limit d)" and "0 < concurrency (limit d)"
      and "searchParams_get (dl_url d) ''list'' = Some pid" and "pid \<noteq> []"
      and "ensureOutputFolder (outputFolder d) s = Inr s1" and "ytpl pid = Inr (items, t)"
      and "\<forall>it \<in> set items. expected_settle (ytdl (shortUrl it)) \<noteq> None"
      and "pl_status (downloadPlaylist slug ytpl ytdl sched d s) \<noteq> Unscheduled"
  shows "\<exists>more st'. pl_status (downloadPlaylist slug ytpl ytdl (sched @ more) d s) = Completed st'"
proof -
  let ?cfg = "map (item_cfg_of slug (outputFolder d) ytdl) items"
  have dp: "downloadPlaylist slug ytpl ytdl xs d s = fan_out slug ytdl xs d s1 items [banner_line, title_line t] [pid]" for xs
    using assms(3-6) by (rule downloadPlaylist_fan_out)
  obtain st where r: "sys_run ?cfg sched (launch ?cfg (limit d) s1) = Some st"
    using assms(8) by (auto simp: dp fan_out_def Let_def split: option.splits prod.splits)
  have settle: "\<forall>c \<in> set ?cfg. expected_settle (snd c) \<noteq> None"
    using assms(7) by (auto simp: item_cfg_of_def)
  obtain st' where r2: "sys_reach ?cfg st st'" and res: "sys_results st' \<noteq> None"
    using reach_completion [OF assms(1,2) settle sys_run_reach [OF r]] by blast
  obtain more where m: "sys_run ?cfg more st = Some st'" using sys_reach_run [OF r2] by blast
  have r3: "sys_run ?cfg (sched @ more) (launch ?cfg (limit d) s1) = Some st'"
    using r m by (simp add: sys_run_append)
  obtain rs where rs: "sys_results st' = Some rs" using res by blast
  have "length rs = length items" using completed_cfg_length [OF assms(1) r3 rs] by simp
  then have "snd (logResults rs items) = None" by (simp add: logResults_render)
  then have "pl_status (downloadPlaylist slug ytpl ytdl (sched @ more) d s) = Completed st'"
    using r3 rs by (auto simp: dp fan_out_def Let_def split: prod.splits)
  then show ?thesis by blast
qed

lemma abc_construct:
  "construct ''https://www.youtube.com/playlist?list=PL1'' ''music'' None = Inr abc_downloader"
  by code_simp

lemma abc_completed:
  "\<exists>st. pl_status (downloadPlaylist (\<lambda>t. t) abc_lister abc_fetch abc_sched abc_downloader abc_fs) = Completed st"
proof -
  have "case pl_status (downloadPlaylist (\<lambda>t. t) abc_lister abc_fetch abc_sched abc_downloader abc_fs) of
          Completed st \<Rightarrow> True | _ \<Rightarrow> False"
    by code_simp
  then show ?thesis by (auto split: pl_status.splits)
qed

text \<open>C20: the constructor succeeds exactly when the URL and the folder are non-empty,
  the URL parses and the effective concurrency is at least 1; the downloader it
  builds keeps the folder and the parsed URL and an idle limiter of that concurrency.\<close>

theorem construct_ok:
  "construct u f opts = Inr d \<longleftrightarrow>
     u \<noteq> [] \<and> f \<noteq> [] \<and> url_parse u = Some (dl_url d) \<and> outputFolder d = f \<and>
     0 < effective_concurrency opts \<and>
     limit d = \<lparr>concurrency = nat (effective_concurrency opts), activeCount = 0, lim_queue = []\<rparr>"
  by (cases d) (auto simp: construct_def validateInputs_def pLimit_def split: option.splits)

theorem construct_ok_witness:
  "construct ''https://www.youtube.com/playlist?list=PL1'' ''music'' None = Inr abc_downloader \<and>
   0 < effective_concurrency None \<and> limit abc_downloader = \<lparr>concurrency = 30, activeCount = 0, lim_queue = []\<rparr>"
  using construct_ok [of "''https://www.youtube.com/playlist?list=PL1''" "''music''" None abc_downloader] abc_construct
  by (simp add: effective_concurrency_def DEFAULT_CONCURRENCY_def)

text \<open>C29: the \<open>format\<close> option has no effect: the constructor does not keep it,
  so two option records that differ only in \<open>format\<close> build the same downloader
  (and every download uses \<open>DEFAULT_FORMAT\<close>).\<close>

theorem construct_ignores_format:
  "construct u f (Some (op\<lparr>opt_format := x\<rparr>)) = construct u f (Some op)"
proof -
  have eff: "effective_concurrency (Some (op\<lparr>opt_format := x\<rparr>)) = effective_concurrency (Some op)"
    by (simp add: effective_concurrency_def)
  show ?thesis unfolding construct_def eff ..
qed

text \<open>C7: a URL without a non-empty \<open>list\<close> parameter makes \<open>downloadPlaylist\<close>
  fail with "The provided URL is not a playlist" before anything else: nothing is
  printed, the file system is untouched and the playlist lister is never called.\<close>

theorem downloadPlaylist_no_list:
  assumes "searchParams_get (dl_url d) ''list'' = None \<or> searchParams_get (dl_url d) ''list'' = Some []"
  shows "downloadPlaylist slug ytpl ytdl sched d s =
         \<lparr>pl_console = [], pl_fs = s, lister_calls = [], pl_status = Threw not_a_playlist\<rparr>"
  using assms by (auto simp: downloadPlaylist_def)

theorem downloadPlaylist_no_list_witness:
  "\<exists>d. construct ''https://www.youtube.com/watch?v=abc&list='' ''music'' None = Inr d \<and>
       searchParams_get (dl_url d) ''list'' = Some [] \<and>
       downloadPlaylist (\<lambda>t. t) abc_lister abc_fetch abc_sched d abc_fs =
         \<lparr>pl_console = [], pl_fs = abc_fs, lister_calls = [], pl_status = Threw not_a_playlist\<rparr>"
proof -
  let ?d = "\<lparr>outputFolder = ''music'', dl_url = \<lparr>url_scheme = ''https'', url_query = Some ''v=abc&list=''\<rparr>,
            limit = \<lparr>concurrency = 30, activeCount = 0, lim_queue = []\<rparr>\<rparr>"
  have c: "construct ''https://www.youtube.com/watch?v=abc&list='' ''music'' None = Inr ?d" by code_simp
  have q: "searchParams_get (dl_url ?d) ''list'' = Some []" by code_simp
  show ?thesis using c q downloadPlaylist_no_list [of ?d] by blast
qed

text \<open>C25: when the playlist lister rejects, \<open>downloadPlaylist\<close> fails with its error
  after the folder was ensured and the banner printed, and no download starts.\<close>

theorem downloadPlaylist_lister_error:
  assumes "searchParams_get (dl_url d) ''list'' = Some pid" and "pid \<noteq> []"
      and "ensureOutputFolder (outputFolder d) s = Inr s1" and "ytpl pid = Inl e"
  shows "downloadPlaylist slug ytpl ytdl sched d s =
         \<lparr>pl_console = [banner_line], pl_fs = s1, lister_calls = [pid], pl_status = Threw e\<rparr>"
  using assms by (simp add: downloadPlaylist_def)

theorem downloadPlaylist_lister_error_witness:
  "searchParams_get \<lparr>url_scheme = ''https'', url_query = Some ''list=PL9''\<rparr> ''list'' = Some ''PL9'' \<and>
   ensureOutputFolder ''music'' abc_fs = Inr (abc_fs\<lparr>dirs := {''music''}\<rparr>) \<and>
   abc_lister ''PL9'' = Inl (JsError ''This playlist does not exist'') \<and>
   downloadPlaylist (\<lambda>t. t) abc_lister abc_fetch [] (abc_downloader\<lparr>dl_url := \<lparr>url_scheme = ''https'', url_query = Some ''list=PL9''\<rparr>\<rparr>) abc_fs =
     \<lparr>pl_console = [banner_line], pl_fs = abc_fs\<lparr>dirs := {''music''}\<rparr>, lister_calls = [''PL9''],
      pl_status = Threw (JsError ''This playlist does not exist'')\<rparr>"
proof -
  have q: "searchParams_get \<lparr>url_scheme = ''https'', url_query = Some ''list=PL9''\<rparr> ''list'' = Some ''PL9''" by code_simp
  have e: "ensureOutputFolder ''music'' abc_fs = Inr (abc_fs\<lparr>dirs := {''music''}\<rparr>)"
    by (simp add: ensureOutputFolder_def existsSync_def abc_fs_def fs_mkdir_recursive_def ancestors_def slash_def)
  have l: "abc_lister ''PL9'' = Inl (JsError ''This playlist does not exist'')" by (simp add: abc_lister_def)
  show ?thesis
    using q e l downloadPlaylist_lister_error [of "abc_downloader\<lparr>dl_url := \<lparr>url_scheme = ''https'', url_query = Some ''list=PL9''\<rparr>\<rparr>"
        "''PL9''" abc_fs "abc_fs\<lparr>dirs := {''music''}\<rparr>" abc_lister "JsError ''This playlist does not exist''"]
    by (simp add: abc_downloader_def)
qed

lemma construct_Inr:
  "construct u f opts = Inr d \<Longrightarrow> url_parse u = Some (dl_url d) \<and> outputFolder d = f"
  by (auto simp: construct_def split: option.splits sum.splits)

lemma fan_out_calls [simp]: "lister_calls (fan_out slug ytdl sched d s items c calls) = calls"
  by (simp add: fan_out_def Let_def split: option.splits prod.splits)

text \<open>C21: the identifier \<open>downloadPlaylist\<close> hands to the playlist lister is the one the
  URL given to the constructor carries in its \<open>list\<close> parameter (line 91 reads it,
  line 98 passes it on), whatever characters it holds once form-encoded into the URL;
  the lister is called exactly once, whether it then succeeds or fails.\<close>

theorem downloadPlaylist_lists_identifier:
  assumes "construct (''https://www.youtube.com/playlist?list='' @ form_encode v) f opts = Inr d"
    and "v \<noteq> []" and "ensureOutputFolder f s = Inr s1"
  shows "lister_calls (downloadPlaylist slug ytpl ytdl sched d s) = [v]"
proof -
  have u: "url_parse (''https://www.youtube.com/playlist?list='' @ form_encode v) = Some (dl_url d)"
    and fo: "outputFolder d = f" using construct_Inr [OF assms(1)] by simp_all
  have g: "searchParams_get (dl_url d) ''list'' = Some v" using searchParams_list_roundtrip [of v] u by simp
  show ?thesis using g assms(2,3) fo by (simp add: downloadPlaylist_def split: sum.splits prod.splits)
qed

theorem downloadPlaylist_lists_identifier_witness:
  "construct (''https://www.youtube.com/playlist?list='' @ form_encode ''PL1'') ''music'' None = Inr abc_downloader \<and>
   ''PL1'' \<noteq> [] \<and> ensureOutputFolder ''music'' abc_fs = Inr (abc_fs\<lparr>dirs := {''music''}\<rparr>) \<and>
   lister_calls (downloadPlaylist (\<lambda>t. t) abc_lister abc_fetch abc_sched abc_downloader abc_fs) = [''PL1'']"
proof -
  have enc: "form_encode ''PL1'' = ''PL1''" by code_simp
  have c: "construct (''https://www.youtube.com/playlist?list='' @ form_encode ''PL1'') ''music'' None = Inr abc_downloader"
    unfolding enc using abc_construct by simp
  have e: "ensureOutputFolder ''music'' abc_fs = Inr (abc_fs\<lparr>dirs := {''music''}\<rparr>)"
    by (simp add: ensureOutputFolder_def existsSync_def abc_fs_def fs_mkdir_recursive_def ancestors_def slash_def)
  have "''PL1'' \<noteq> []" by simp
  then show ?thesis using c e downloadPlaylist_lists_identifier [OF c _ e] by blast
qed

text \<open>C1: whatever the interleaving, a run that completes prints the banner, the
  playlist title, and the rendering of the spec's Run Report for the items the
  lister returned zipped with the outcomes their scripts determine, in playlist
  order; the lister is called once, with the playlist identifier.\<close>

theorem downloadPlaylist_report:
  assumes "lim_idle (limit d)" and "pl_status (downloadPlaylist slug ytpl ytdl sched d s) = Completed st"
  shows "\<exists>pid items t rs. ytpl pid = Inr (items, t) \<and> lister_calls (downloadPlaylist slug ytpl ytdl sched d s) = [pid] \<and>
           expected_results (map (item_cfg_of slug (outputFolder d) ytdl) items) = Some rs \<and>
           pl_console (downloadPlaylist slug ytpl ytdl sched d s) = [banner_line, title_line t] @ render_report (report_of (zip items rs))"
  using assms by (rule completed_report)

theorem downloadPlaylist_report_witness:
  "\<exists>st. lim_idle (limit abc_downloader) \<and>
        pl_status (downloadPlaylist (\<lambda>t. t) abc_lister abc_fetch abc_sched abc_downloader abc_fs) = Completed st \<and>
        (\<exists>pid items t rs. abc_lister pid = Inr (items, t) \<and>
           lister_calls (downloadPlaylist (\<lambda>t. t) abc_lister abc_fetch abc_sched abc_downloader abc_fs) = [pid] \<and>
           expected_results (map (item_cfg_of (\<lambda>t. t) (outputFolder abc_downloader) abc_fetch) items) = Some rs \<and>
           pl_console (downloadPlaylist (\<lambda>t. t) abc_lister abc_fetch abc_sched abc_downloader abc_fs) =
             [banner_line, title_line t] @ render_report (report_of (zip items rs)))"
proof -
  obtain st where c: "pl_status (downloadPlaylist (\<lambda>t. t) abc_lister abc_fetch abc_sched abc_downloader abc_fs) = Completed st"
    using abc_completed by blast
  have i: "lim_idle (limit abc_downloader)" by (simp add: abc_downloader_def lim_idle_def)
  show ?thesis using i c downloadPlaylist_report [OF i c] by blast
qed

text \<open>C14: the spec's example: for the playlist A, B, C where B's fetch fails and A and C
  succeed, every interleaving that completes prints "Downloaded 2/3 musics
  successfully" and exactly one failure line, for B.\<close>

theorem spec_example_ABC:
  assumes "pl_status (downloadPlaylist (\<lambda>t. t) abc_lister abc_fetch sched abc_downloader abc_fs) = Completed st"
  shows "pl_console (downloadPlaylist (\<lambda>t. t) abc_lister abc_fetch sched abc_downloader abc_fs) =
         [(Stdout, ''Youtube Downloader 1.0.0''), (Stdout, ''Downloading playlist: Mix''),
          (Stdout, ''Downloaded 2/3 musics successfully''), failures_header, (Stderr, ''- B: fetch failed'')]"
proof -
  have i: "lim_idle (limit abc_downloader)" by (simp add: abc_downloader_def lim_idle_def)
  obtain pid items t rs where y: "abc_lister pid = Inr (items, t)"
    and calls: "lister_calls (downloadPlaylist (\<lambda>t. t) abc_lister abc_fetch sched abc_downloader abc_fs) = [pid]"
    and exp: "expected_results (map (item_cfg_of (\<lambda>t. t) (outputFolder abc_downloader) abc_fetch) items) = Some rs"
    and out: "pl_console (downloadPlaylist (\<lambda>t. t) abc_lister abc_fetch sched abc_downloader abc_fs) =
              [banner_line, title_line t] @ render_report (report_of (zip items rs))"
    using completed_report [OF i assms] by blast
  have "searchParams_get (dl_url abc_downloader) ''list'' = Some ''PL1''" by code_simp
  then have "pid = ''PL1''" using calls
    by (auto simp: downloadPlaylist_def fan_out_def Let_def split: if_splits sum.splits prod.splits option.splits)
  then have it: "items = [sample_item ''A'', sample_item ''B'', sample_item ''C'']" and tt: "t = ''Mix''"
    using y by (simp_all add: abc_lister_def)
  have "expected_results (map (item_cfg_of (\<lambda>t. t) (outputFolder abc_downloader) abc_fetch)
          [sample_item ''A'', sample_item ''B'', sample_item ''C''])
        = Some [success_result, failure_result (JsError ''fetch failed''), success_result]"
    by code_simp
  then have "rs = [success_result, failure_result (JsError ''fetch failed''), success_result]" using exp it by simp
  moreover have "[banner_line, title_line ''Mix''] @ render_report (report_of (zip [sample_item ''A'', sample_item ''B'', sample_item ''C'']
                   [success_result, failure_result (JsError ''fetch failed''), success_result])) =
         [(Stdout, ''Youtube Downloader 1.0.0''), (Stdout, ''Downloading playlist: Mix''),
          (Stdout, ''Downloaded 2/3 musics successfully''), failures_header, (Stderr, ''- B: fetch failed'')]"
    by code_simp
  ultimately show ?thesis using out it tt by simp
qed

theorem spec_example_ABC_witness:
  "\<exists>st. pl_status (downloadPlaylist (\<lambda>t. t) abc_lister abc_fetch abc_sched abc_downloader abc_fs) = Completed st \<and>
        pl_console (downloadPlaylist (\<lambda>t. t) abc_lister abc_fetch abc_sched abc_downloader abc_fs) =
         [(Stdout, ''Youtube Downloader 1.0.0''), (Stdout, ''Downloading playlist: Mix''),
          (Stdout, ''Downloaded 2/3 musics successfully''), failures_header, (Stderr, ''- B: fetch failed'')]"
proof -
  obtain st where c: "pl_status (downloadPlaylist (\<lambda>t. t) abc_lister abc_fetch abc_sched abc_downloader abc_fs) = Completed st"
    using abc_completed by blast
  show ?thesis using c spec_example_ABC [OF c] by blast
qed

text \<open>C24: after a completed run the downloader's limiter is idle again, with its
  concurrency unchanged, so a later \<open>downloadPlaylist\<close> on the same downloader starts
  from the state the constructor built.\<close>

theorem completed_run_leaves_limiter_idle:
  assumes "lim_idle (limit d)" and "0 < concurrency (limit d)"
      and "pl_status (downloadPlaylist slug ytpl ytdl sched d s) = Completed st"
  shows "lim_idle (lim st) \<and> concurrency (lim st) = concurrency (limit d)"
  using assms by (rule completed_lim_idle)

theorem completed_run_leaves_limiter_idle_witness:
  "\<exists>st. lim_idle (limit abc_downloader) \<and> 0 < concurrency (limit abc_downloader) \<and>
        pl_status (downloadPlaylist (\<lambda>t. t) abc_lister abc_fetch abc_sched abc_downloader abc_fs) = Completed st \<and>
        lim_idle (lim st) \<and> concurrency (lim st) = 30"
proof -
  obtain st where c: "pl_status (downloadPlaylist (\<lambda>t. t) abc_lister abc_fetch abc_sched abc_downloader abc_fs) = Completed st"
    using abc_completed by blast
  have i: "lim_idle (limit abc_downloader)" "0 < concurrency (limit abc_downloader)"
    by (simp_all add: abc_downloader_def lim_idle_def)
  show ?thesis using i c completed_run_leaves_limiter_idle [OF i c] by (simp add: abc_downloader_def)
qed

text \<open>C8: when the identifier, the folder and the lister succeed and every item's
  script settles, a run that has not gone off the program's behaviours can always be
  continued to completion: the report is eventually printed.\<close>

theorem downloadPlaylist_can_complete:
  assumes "lim_idle (limit d)" and "0 < concurrency (limit d)"
      and "searchParams_get (dl_url d) ''list'' = Some pid" and "pid \<noteq> []"
      and "ensureOutputFolder (outputFolder d) s = Inr s1" and "ytpl pid = Inr (items, t)"
      and "\<forall>it \<in> set items. expected_settle (ytdl (shortUrl it)) \<noteq> None"
      and "pl_status (downloadPlaylist slug ytpl ytdl sched d s) \<noteq> Unscheduled"
  shows "\<exists>more st'. pl_status (downloadPlaylist slug ytpl ytdl (sched @ more) d s) = Completed st'"
  using assms by (rule completion_reachable)

theorem downloadPlaylist_can_complete_witness:
  "searchParams_get (dl_url abc_downloader) ''list'' = Some ''PL1'' \<and>
   ensureOutputFolder (outputFolder abc_downloader) abc_fs = Inr (abc_fs\<lparr>dirs := {''music''}\<rparr>) \<and>
   list_all (\<lambda>it. expected_settle (abc_fetch (shortUrl it)) \<noteq> None) [sample_item ''A'', sample_item ''B'', sample_item ''C''] \<and>
   pl_status (downloadPlaylist (\<lambda>t. t) abc_lister abc_fetch [] abc_downloader abc_fs) \<noteq> Unscheduled \<and>
   (\<exists>more st'. pl_status (downloadPlaylist (\<lambda>t. t) abc_lister abc_fetch ([] @ more) abc_downloader abc_fs) = Completed st')"
proof -
  have i: "lim_idle (limit abc_downloader)" "0 < concurrency (limit abc_downloader)"
    by (simp_all add: abc_downloader_def lim_idle_def)
  have q: "searchParams_get (dl_url abc_downloader) ''list'' = Some ''PL1''" by code_simp
  have e: "ensureOutputFolder (outputFolder abc_downloader) abc_fs = Inr (abc_fs\<lparr>dirs := {''music''}\<rparr>)"
    by (simp add: ensureOutputFolder_def existsSync_def abc_fs_def abc_downloader_def fs_mkdir_recursive_def
                  ancestors_def slash_def)
  have l: "abc_lister ''PL1'' = Inr ([sample_item ''A'', sample_item ''B'', sample_item ''C''], ''Mix'')"
    by (simp add: abc_lister_def)
  have la: "list_all (\<lambda>it. expected_settle (abc_fetch (shortUrl it)) \<noteq> None) [sample_item ''A'', sample_item ''B'', sample_item ''C'']"
    by code_simp
  then have settle: "\<forall>it \<in> set [sample_item ''A'', sample_item ''B'', sample_item ''C'']. expected_settle (abc_fetch (shortUrl it)) \<noteq> None"
    by (simp only: list_all_iff)
  have "case pl_status (downloadPlaylist (\<lambda>t. t) abc_lister abc_fetch [] abc_downloader abc_fs) of
          Unscheduled \<Rightarrow> False | _ \<Rightarrow> True"
    by code_simp
  then have u: "pl_status (downloadPlaylist (\<lambda>t. t) abc_lister abc_fetch [] abc_downloader abc_fs) \<noteq> Unscheduled"
    by (auto split: pl_status.splits)
  show ?thesis
    using q e la u downloadPlaylist_can_complete [OF i q _ e l settle u] by simp
qed

text \<open>C26: \<open>ensureOutputFolder\<close> leaves the folder existing, changes no file, and is
  idempotent: a second call finds the folder and does nothing.\<close>

theorem ensureOutputFolder_ok:
  assumes "ensureOutputFolder f s = Inr s'"
  shows "existsSync s' f \<and> entries s' = entries s \<and> ensureOutputFolder f s' = Inr s'"
proof (cases "existsSync s f")
  case True
  then show ?thesis using assms by (simp add: ensureOutputFolder_def)
next
  case False
  then have m: "fs_mkdir_recursive f s = Inr s'" using assms by (simp add: ensureOutputFolder_def)
  have ex: "existsSync s' f" using m by (rule fs_mkdir_exists)
  then show ?thesis using fs_mkdir_entries [OF m] by (simp add: ensureOutputFolder_def)
qed

theorem ensureOutputFolder_ok_witness:
  "ensureOutputFolder ''music/2024'' abc_fs = Inr (abc_fs\<lparr>dirs := {''music'', ''music/2024''}\<rparr>) \<and>
   existsSync (abc_fs\<lparr>dirs := {''music'', ''music/2024''}\<rparr>) ''music/2024'' \<and>
   ensureOutputFolder ''music/2024'' (abc_fs\<lparr>dirs := {''music'', ''music/2024''}\<rparr>) = Inr (abc_fs\<lparr>dirs := {''music'', ''music/2024''}\<rparr>)"
proof -
  have e: "ensureOutputFolder ''music/2024'' abc_fs = Inr (abc_fs\<lparr>dirs := {''music'', ''music/2024''}\<rparr>)"
    by (simp add: ensureOutputFolder_def existsSync_def abc_fs_def fs_mkdir_recursive_def ancestors_def slash_def insert_commute)
  show ?thesis using e ensureOutputFolder_ok [OF e] by blast
qed

text \<open>An example of the slug-collision finding: two titles with the same slug share one output path, and the catch block of
  the failing one deletes the file the other has just written: the run reports the
  first item as downloaded while no file is left at its path.\<close>

theorem slug_collision_deletes_saved_file:
  "\<exists>st. pl_status (downloadPlaylist (\<lambda>t. ''x'') abc_lister abc_fetch [(0, Ev), (0, Ev), (0, Ev), (1, Ev), (1, Unlink)]
                  (abc_downloader\<lparr>dl_url := \<lparr>url_scheme = ''https'', url_query = Some ''list=PL2''\<rparr>\<rparr>) abc_fs) = Completed st \<and>
        pl_console (downloadPlaylist (\<lambda>t. ''x'') abc_lister abc_fetch [(0, Ev), (0, Ev), (0, Ev), (1, Ev), (1, Unlink)]
                  (abc_downloader\<lparr>dl_url := \<lparr>url_scheme = ''https'', url_query = Some ''list=PL2''\<rparr>\<rparr>) abc_fs) =
          [(Stdout, ''Youtube Downloader 1.0.0''), (Stdout, ''Downloading playlist: Pair''),
           (Stdout, ''Downloaded 1/2 musics successfully''), failures_header, (Stderr, ''- B: fetch failed'')] \<and>
        file_at (pl_fs (downloadPlaylist (\<lambda>t. ''x'') abc_lister abc_fetch [(0, Ev), (0, Ev), (0, Ev), (1, Ev), (1, Unlink)]
                  (abc_downloader\<lparr>dl_url := \<lparr>url_scheme = ''https'', url_query = Some ''list=PL2''\<rparr>\<rparr>) abc_fs)) ''music/x.mp3'' = None"
proof -
  let ?r = "downloadPlaylist (\<lambda>t. ''x'') abc_lister abc_fetch [(0, Ev), (0, Ev), (0, Ev), (1, Ev), (1, Unlink)]
                  (abc_downloader\<lparr>dl_url := \<lparr>url_scheme = ''https'', url_query = Some ''list=PL2''\<rparr>\<rparr>) abc_fs"
  have "case pl_status ?r of Completed st \<Rightarrow> True | _ \<Rightarrow> False" by code_simp
  then obtain st where c: "pl_status ?r = Completed st" by (auto split: pl_status.splits)
  have o: "pl_console ?r = [(Stdout, ''Youtube Downloader 1.0.0''), (Stdout, ''Downloading playlist: Pair''),
           (Stdout, ''Downloaded 1/2 musics successfully''), failures_header, (Stderr, ''- B: fetch failed'')]"
    by code_simp
  have f: "file_at (pl_fs ?r) ''music/x.mp3'' = None" by code_simp
  show ?thesis using c o f by blast
qed

end
