(* ===== verification/Session.thy ===== *)
theory Session
  imports Runs
begin

text \<open>
  Several calls of \<open>downloadPlaylist\<close> on one \<open>YoutubeDownloader\<close>
  (\<open>src/src/downloader.ts\<close>, lines 90--108).  The limiter is a field of the
  instance (line 39, built once at line 45), so every call submits its items to the
  same limiter, and a call may start while an earlier one is still in flight.
  \<open>extend\<close> is the fan-out of one more call (lines 102--105) on the state of the
  calls already running: its items are appended, submitted in order, and admitted
  by the checks their submissions schedule.  \<open>sess_reach\<close> is the set of states
  such a session reaches, from an idle limiter, by calls, folder creations and
  download steps in any order.  The single-call fan-out \<open>System.launch\<close> is the
  first call of a session (\<open>launch_is_extend\<close>).
\<close>

definition extend :: "item_cfg list \<Rightarrow> item_cfg list \<Rightarrow> sys \<Rightarrow> sys" where
  "extend cfg cfg2 st =
     (let n = length cfg; m = length cfg2;
          (adm, l') = lim_exec (map Submit [n..<n + m] @ replicate m Check) (lim st)
      in \<lparr>lim = l', tasks = fold (start_task (cfg @ cfg2)) adm (tasks st @ replicate m None), fsys = fsys st\<rparr>)"

text \<open>
  The calls of \<open>downloadPlaylist\<close> made on one downloader, possibly overlapping: a
  call's \<open>ensureOutputFolder\<close> may change the file system between the steps of
  the downloads already in flight, and its fan-out appends its items to those of
  the earlier calls, all submitted to the one limiter.\<close>

inductive sess_reach :: "nat limiter \<Rightarrow> fs \<Rightarrow> item_cfg list \<Rightarrow> sys \<Rightarrow> bool" for l s where
  start: "sess_reach l s [] \<lparr>lim = l, tasks = [], fsys = s\<rparr>"
| folder: "sess_reach l s cfg st \<Longrightarrow> fs_mkdir_recursive f (fsys st) = Inr s' \<Longrightarrow> sess_reach l s cfg (st\<lparr>fsys := s'\<rparr>)"
| call: "sess_reach l s cfg st \<Longrightarrow> sess_reach l s (cfg @ cfg2) (extend cfg cfg2 st)"
| step: "sess_reach l s cfg st \<Longrightarrow> sys_step cfg x st = Some st' \<Longrightarrow> sess_reach l s cfg st'"

text \<open>The results of the call whose items are at positions \<open>p\<close> to \<open>p + m - 1\<close>.\<close>

definition call_results :: "nat \<Rightarrow> nat \<Rightarrow> sys \<Rightarrow> download_result list option" where
  "call_results p m st = all_some (map task_result (take m (drop p (tasks st))))"

text \<open>Two calls on a downloader of concurrency 1: the second call submits its item
  while the first call's download is still in flight.\<close>

definition two_calls :: sys where
  "two_calls = extend (take 1 sample_cfg) (drop 1 sample_cfg)
                 (extend [] (take 1 sample_cfg) \<lparr>lim = sample_limiter, tasks = [], fsys = sample_fs\<rparr>)"

subsection \<open>Lemmas\<close>

lemma lim_exec_submit_checks:
  "lim_exec (map Submit xs @ replicate m Check) l =
     (let j = min m (min (concurrency l - activeCount l) (length (lim_queue l) + length xs))
      in (take j (lim_queue l @ xs), l\<lparr>lim_queue := drop j (lim_queue l @ xs), activeCount := activeCount l + j\<rparr>))"
  by (simp add: lim_exec_append lim_exec_submits lim_exec_checks Let_def)

lemma extend_tasks:
  "length ts = n \<Longrightarrow> j \<le> m \<Longrightarrow>
   fold (start_task cfg) [n..<n + j] (ts @ replicate m None)
   = ts @ map (\<lambda>i. if i < j then Some (start_of cfg (n + i)) else None) [0..<m]"
  by (rule nth_equalityI) (auto simp: fold_start_task_nth nth_append)

lemma running_shifted:
  "j \<le> m \<Longrightarrow> length (filter running (map (\<lambda>i. if i < j then Some (start_of cfg (n + i)) else None) [0..<m])) = j"
proof -
  assume j: "j \<le> m"
  have "running \<circ> (\<lambda>i. if i < j then Some (start_of cfg (n + i)) else None) = (\<lambda>i. i < j)"
    by (auto simp: running_def fun_eq_iff)
  then show ?thesis using j by (simp add: filter_upt_less)
qed

lemma extend_eq:
  fixes cfg2 :: "item_cfg list"
  assumes inv: "sys_inv cfg st" and k: "k \<le> length cfg" "lim_queue (lim st) = [k..<length cfg]"
  defines "j \<equiv> (if k < length cfg then 0 else min (length cfg2) (concurrency (lim st) - activeCount (lim st)))"
  shows "extend cfg cfg2 st =
     \<lparr>lim = lim st\<lparr>lim_queue := [(if k < length cfg then k else length cfg + j)..<length cfg + length cfg2],
                    activeCount := activeCount (lim st) + j\<rparr>,
      tasks = tasks st @ map (\<lambda>i. if i < j then Some (start_of (cfg @ cfg2) (length cfg + i)) else None) [0..<length cfg2],
      fsys = fsys st\<rparr>"
proof -
  let ?n = "length cfg" and ?m = "length cfg2"
  have len: "length (tasks st) = ?n" by (rule sys_invD(1) [OF inv])
  have jm: "j \<le> ?m" by (simp add: j_def)
  have exec: "lim_exec (map Submit [?n..<?n + ?m] @ replicate ?m Check) (lim st) =
      ([?n..<?n + j], lim st\<lparr>lim_queue := [(if k < ?n then k else ?n + j)..<?n + ?m],
                              activeCount := activeCount (lim st) + j\<rparr>)"
  proof (cases "k < ?n")
    case True
    then have "lim_queue (lim st) \<noteq> []" using k(2) by auto
    then have "activeCount (lim st) = concurrency (lim st)" by (rule sys_invD(5) [OF inv])
    moreover have "[k..<?n] @ [?n..<?n + ?m] = [k..<?n + ?m]" using upt_add_eq_append [OF k(1), of "length cfg2"] by simp
    ultimately show ?thesis using True k(2) by (simp add: lim_exec_submit_checks j_def Let_def)
  next
    case False
    then have kn: "k = ?n" using k(1) by simp
    have "min ?m (min (concurrency (lim st) - activeCount (lim st)) ?m) = j" using kn by (simp add: j_def)
    moreover have "take j [?n..<?n + ?m] = [?n..<?n + j]" "drop j [?n..<?n + ?m] = [?n + j..<?n + ?m]"
      using jm by simp_all
    ultimately show ?thesis using kn k(2) by (simp add: lim_exec_submit_checks Let_def)
  qed
  show ?thesis
    unfolding extend_def Let_def exec using extend_tasks [OF len jm] by simp
qed

lemma extend_inv:
  assumes inv: "sys_inv cfg st"
  shows "sys_inv (cfg @ cfg2) (extend cfg cfg2 st)"
proof -
  let ?n = "length cfg" and ?m = "length cfg2"
  let ?a = "activeCount (lim st)" and ?c = "concurrency (lim st)"
  have len: "length (tasks st) = ?n" by (rule sys_invD(1) [OF inv])
  obtain k where k: "k \<le> ?n" "lim_queue (lim st) = [k..<?n]" "\<forall>i < ?n. (tasks st ! i \<noteq> None) = (i < k)"
    using sys_invD(2) [OF inv] by blast
  define j where "j = (if k < ?n then 0 else min ?m (?c - ?a))"
  define k' where "k' = (if k < ?n then k else ?n + j)"
  let ?new = "map (\<lambda>i. if i < j then Some (start_of (cfg @ cfg2) (?n + i)) else None) [0..<?m]"
  have ext: "extend cfg cfg2 st =
     \<lparr>lim = lim st\<lparr>lim_queue := [k'..<?n + ?m], activeCount := ?a + j\<rparr>, tasks = tasks st @ ?new, fsys = fsys st\<rparr>"
    using extend_eq [OF inv k(1,2), of cfg2] by (simp add: j_def k'_def)
  have jm: "j \<le> ?m" by (simp add: j_def)
  have le: "?a \<le> ?c" by (rule sys_invD(4) [OF inv])
  have full: "k < ?n \<Longrightarrow> ?a = ?c"
  proof -
    assume "k < ?n"
    then have "lim_queue (lim st) \<noteq> []" using k(2) by auto
    then show ?thesis by (rule sys_invD(5) [OF inv])
  qed
  have cnt: "?a + j = length (filter running (tasks st @ ?new))"
    using sys_invD(3) [OF inv] running_shifted [OF jm] by simp
  have bound: "?a + j \<le> ?c" using le full by (auto simp: j_def)
  have nofree: "[k'..<?n + ?m] \<noteq> [] \<longrightarrow> ?a + j = ?c" using le full by (auto simp: j_def k'_def)
  have pre: "\<forall>i < ?n + ?m. ((tasks st @ ?new) ! i \<noteq> None) = (i < k')"
  proof (intro allI impI)
    fix i assume i: "i < ?n + ?m"
    show "((tasks st @ ?new) ! i \<noteq> None) = (i < k')"
    proof (cases "i < ?n")
      case True
      then show ?thesis using k(3) len k(1) by (auto simp: nth_append k'_def)
    next
      case False
      then show ?thesis using i len by (auto simp: nth_append k'_def j_def)
    qed
  qed
  have paths: "\<forall>i < ?n + ?m. \<forall>u. (tasks st @ ?new) ! i = Some u \<longrightarrow>
                 out_path u = fst ((cfg @ cfg2) ! i) \<and> dl_inv (snd ((cfg @ cfg2) ! i)) u"
  proof (intro allI impI)
    fix i u assume i: "i < ?n + ?m" and u: "(tasks st @ ?new) ! i = Some u"
    show "out_path u = fst ((cfg @ cfg2) ! i) \<and> dl_inv (snd ((cfg @ cfg2) ! i)) u"
    proof (cases "i < ?n")
      case True
      then show ?thesis using sys_invD(6) [OF inv True] u len by (simp add: nth_append)
    next
      case False
      then have "u = start_of (cfg @ cfg2) i" using u i len by (auto simp: nth_append split: if_splits)
      then show ?thesis by (simp add: start_of_props)
    qed
  qed
  have kk: "k' \<le> ?n + ?m" using k(1) jm by (simp add: k'_def)
  show ?thesis
    unfolding ext
    by (rule sys_invI [where k = k']) (use len kk pre cnt bound nofree paths in simp_all)
qed

lemma sys_inv_fsys:
  assumes "sys_inv cfg st"
  shows "sys_inv cfg (st\<lparr>fsys := s'\<rparr>)"
proof -
  have t: "tasks (st\<lparr>fsys := s'\<rparr>) = tasks st" and l: "lim (st\<lparr>fsys := s'\<rparr>) = lim st" by simp_all
  show ?thesis using assms unfolding sys_inv_def t l .
qed

lemma sys_inv_empty: "lim_idle l \<Longrightarrow> sys_inv [] \<lparr>lim = l, tasks = [], fsys = s\<rparr>"
  by (rule sys_invI [where k = 0]) (simp_all add: lim_idle_def)

lemma extend_concurrency: "concurrency (lim (extend cfg cfg2 st)) = concurrency (lim st)"
proof -
  have "concurrency (snd (lim_exec ops l)) = concurrency l" for ops and l :: "nat limiter"
  proof (induction ops arbitrary: l)
    case (Cons op ops)
    then show ?case by (simp only: lim_exec_Cons_snd lim_step_concurrency)
  qed simp
  then show ?thesis by (simp add: extend_def Let_def split_def)
qed

lemma sess_inv:
  "sess_reach l s cfg st \<Longrightarrow> lim_idle l \<Longrightarrow> sys_inv cfg st \<and> concurrency (lim st) = concurrency l"
proof (induction rule: sess_reach.induct)
  case start
  then show ?case by (simp add: sys_inv_empty)
next
  case (folder cfg st f s')
  then show ?case by (simp add: sys_inv_fsys)
next
  case (call cfg st cfg2)
  then show ?case by (simp add: extend_inv extend_concurrency)
next
  case (step cfg st x st')
  then show ?case using sys_step_inv sys_step_concurrency by metis
qed

lemma launch_is_extend: "launch cfg l s = extend [] cfg \<lparr>lim = l, tasks = [], fsys = s\<rparr>"
  by (simp add: launch_def extend_def)

lemma sys_reach_sess: "sys_reach cfg st0 st \<Longrightarrow> sess_reach l s cfg st0 \<Longrightarrow> sess_reach l s cfg st"
  by (induction rule: sys_reach.induct) (auto intro: sess_reach.step)

lemma launch_sess: "sess_reach l s cfg (launch cfg l s)"
  using sess_reach.call [OF sess_reach.start, of l s cfg] by (simp add: launch_is_extend)

lemma call_results_expected:
  assumes inv: "sys_inv cfg st" and r: "call_results p m st = Some rs"
  shows "expected_results (take m (drop p cfg)) = Some rs"
proof -
  have len: "length (tasks st) = length cfg" by (rule sys_invD(1) [OF inv])
  have "all_some (map task_result (take m (drop p (tasks st)))) = Some rs" using r by (simp only: call_results_def)
  then have e: "length (map task_result (take m (drop p (tasks st)))) = length rs \<and>
    (\<forall>i < length (map task_result (take m (drop p (tasks st)))). map task_result (take m (drop p (tasks st))) ! i = Some (rs ! i))"
    by (rule all_some_iff [THEN iffD1])
  note each = conjunct1 [OF e] conjunct2 [OF e]
  have pi: "map_option outcome (expected_settle (snd (take m (drop p cfg) ! i))) = Some (rs ! i)"
    if i: "i < length (take m (drop p cfg))" for i
  proof -
    have ip: "p + i < length cfg" "i < m" using i by auto
    have "i < length (map task_result (take m (drop p (tasks st))))" using i len by simp
    then have "task_result (tasks st ! (p + i)) = Some (rs ! i)" using each(2) ip len by simp
    then obtain t where ti: "tasks st ! (p + i) = Some t" and ph: "phase t = Returned (rs ! i)"
      by (auto simp: task_result_def split: option.splits dl_phase.splits)
    have "dl_inv (snd (cfg ! (p + i))) t" using sys_invD(6) [OF inv ip(1) ti] by simp
    then show ?thesis using ph ip by (auto simp: dl_inv_def)
  qed
  have "length (take m (drop p cfg)) = length rs" using each(1) len by simp
  then show ?thesis unfolding expected_results_def
    by (intro all_some_iff [THEN iffD2] conjI) (use pi in simp_all)
qed

lemma sys_run_sess: "sys_run cfg xs st = Some st' \<Longrightarrow> sess_reach l s cfg st \<Longrightarrow> sess_reach l s cfg st'"
  by (blast intro: sys_reach_sess sys_run_reach)

lemma two_calls_reach: "sess_reach sample_limiter sample_fs sample_cfg two_calls"
proof -
  let ?st0 = "\<lparr>lim = sample_limiter, tasks = [], fsys = sample_fs\<rparr>"
  have "sess_reach sample_limiter sample_fs ([] @ take 1 sample_cfg) (extend [] (take 1 sample_cfg) ?st0)"
    by (rule sess_reach.call [OF sess_reach.start])
  then have r1: "sess_reach sample_limiter sample_fs (take 1 sample_cfg) (extend [] (take 1 sample_cfg) ?st0)"
    by (simp only: append_Nil)
  have "sess_reach sample_limiter sample_fs (take 1 sample_cfg @ drop 1 sample_cfg) two_calls"
    unfolding two_calls_def by (rule sess_reach.call [OF r1])
  then show ?thesis by (simp only: append_take_drop_id)
qed

lemma two_calls_queue: "lim_queue (lim two_calls) = [1] \<and> tasks two_calls ! 1 = None"
  by code_simp

lemma two_calls_run:
  "\<exists>st. sys_run sample_cfg [(0, Ev), (0, Ev), (0, Ev), (1, Ev), (1, Unlink)] two_calls = Some st \<and>
        call_results 0 1 st = Some [success_result] \<and>
        call_results 1 1 st = Some [failure_result (JsError ''net'')]"
proof -
  have "map_option (\<lambda>st. (call_results 0 1 st, call_results 1 1 st))
          (sys_run sample_cfg [(0, Ev), (0, Ev), (0, Ev), (1, Ev), (1, Unlink)] two_calls)
        = Some (Some [success_result], Some [failure_result (JsError ''net'')])"
    by code_simp
  then show ?thesis by auto
qed

lemma sess_run_state:
  "\<exists>st. sess_reach sample_limiter sample_fs sample_cfg st \<and>
        call_results 0 1 st = Some [success_result] \<and> call_results 1 1 st = Some [failure_result (JsError ''net'')]"
proof -
  obtain st where r: "sys_run sample_cfg [(0, Ev), (0, Ev), (0, Ev), (1, Ev), (1, Unlink)] two_calls = Some st"
    and c: "call_results 0 1 st = Some [success_result]" "call_results 1 1 st = Some [failure_result (JsError ''net'')]"
    using two_calls_run by blast
  show ?thesis using sys_run_sess [OF r two_calls_reach] c by blast
qed

lemma all_some_None_set: "all_some xs = None \<longleftrightarrow> None \<in> set xs"
  by (induction xs) (auto split: option.splits)

lemma call_results_done: "sys_results st \<noteq> None \<Longrightarrow> call_results p m st \<noteq> None"
proof -
  assume "sys_results st \<noteq> None"
  then have "None \<notin> set (map task_result (tasks st))" by (simp add: sys_results_def all_some_None_set)
  moreover have "set (map task_result (take m (drop p (tasks st)))) \<subseteq> set (map task_result (tasks st))"
    by (auto dest: in_set_takeD in_set_dropD)
  ultimately show ?thesis by (auto simp: call_results_def all_some_None_set)
qed

text \<open>C9: the limiter is shared by every call of \<open>downloadPlaylist\<close> on one
  downloader: however the calls overlap, the downloads in flight of all of them
  together never exceed the concurrency.\<close>

theorem overlapping_calls_bounded:
  assumes "lim_idle l" and "sess_reach l s cfg st"
  shows "length (filter running (tasks st)) \<le> concurrency l"
proof -
  have i: "sys_inv cfg st" and c: "concurrency (lim st) = concurrency l" using sess_inv [OF assms(2,1)] by simp_all
  show ?thesis using sys_invD(3,4) [OF i] c by simp
qed

theorem overlapping_calls_bounded_witness:
  "lim_idle sample_limiter \<and> sess_reach sample_limiter sample_fs sample_cfg two_calls \<and>
   lim_queue (lim two_calls) = [1] \<and> length (filter running (tasks two_calls)) \<le> 1"
  using sample_idle two_calls_reach two_calls_queue overlapping_calls_bounded [OF sample_idle two_calls_reach]
  by (simp add: sample_limiter_def)

text \<open>C11: admission is FIFO across calls: the items started are always a prefix of
  the items of all calls in the order they were submitted, so no item of a later
  call starts before every item of an earlier call has started.\<close>

theorem overlapping_calls_fifo:
  assumes "lim_idle l" and "sess_reach l s cfg st"
  shows "\<exists>k \<le> length cfg. lim_queue (lim st) = [k..<length cfg] \<and>
                          (\<forall>i < length cfg. tasks st ! i \<noteq> None \<longleftrightarrow> i < k)"
  using sess_inv [OF assms(2,1)] sys_invD(2) by blast

theorem overlapping_calls_fifo_witness:
  "lim_idle sample_limiter \<and> sess_reach sample_limiter sample_fs sample_cfg two_calls \<and>
   (\<exists>k \<le> length sample_cfg. lim_queue (lim two_calls) = [k..<length sample_cfg] \<and>
       (\<forall>i < length sample_cfg. tasks two_calls ! i \<noteq> None \<longleftrightarrow> i < k))"
  using sample_idle two_calls_reach overlapping_calls_fifo [OF sample_idle two_calls_reach] by blast

text \<open>C10: a call's \<open>Promise.all\<close> is unaffected by overlapping calls: once the
  downloads of the call whose items sit at positions p to p + m - 1 have all
  returned, their results are the outcomes that call's items' scripts determine.\<close>

theorem overlapping_call_results:
  assumes "lim_idle l" and "sess_reach l s cfg st" and "call_results p m st = Some rs"
  shows "expected_results (take m (drop p cfg)) = Some rs"
  using sess_inv [OF assms(2,1)] assms(3) call_results_expected by blast

theorem overlapping_call_results_witness:
  "\<exists>st. lim_idle sample_limiter \<and> sess_reach sample_limiter sample_fs sample_cfg st \<and>
        call_results 1 1 st = Some [failure_result (JsError ''net'')] \<and>
        expected_results (take 1 (drop 1 sample_cfg)) = Some [failure_result (JsError ''net'')]"
proof -
  obtain st where r: "sess_reach sample_limiter sample_fs sample_cfg st"
    and c: "call_results 1 1 st = Some [failure_result (JsError ''net'')]"
    using sess_run_state by blast
  show ?thesis using sample_idle r c overlapping_call_results [OF sample_idle r c] by blast
qed

text \<open>C12: liveness of a session: when every item's script settles and the concurrency
  is positive, from any state of overlapping calls the downloads can be continued to a
  state, still a state of the session, where every call's \<open>Promise.all\<close> has resolved.\<close>

theorem overlapping_calls_complete:
  assumes "lim_idle l" and "0 < concurrency l" and "\<forall>c \<in> set cfg. expected_settle (snd c) \<noteq> None"
      and "sess_reach l s cfg st"
  shows "\<exists>st'. sess_reach l s cfg st' \<and> sys_reach cfg st st' \<and> (\<forall>p m. call_results p m st' \<noteq> None)"
proof -
  have i: "sys_inv cfg st" and c: "concurrency (lim st) = concurrency l" using sess_inv [OF assms(4,1)] by simp_all
  obtain st' where r: "sys_reach cfg st st'" and d: "sys_results st' \<noteq> None"
    using inv_completion [OF i _ assms(3)] c assms(2) by auto
  show ?thesis using sys_reach_sess [OF r assms(4)] r call_results_done [OF d] by blast
qed

theorem overlapping_calls_complete_witness:
  "lim_idle sample_limiter \<and> 0 < concurrency sample_limiter \<and>
   list_all (\<lambda>c. expected_settle (snd c) \<noteq> None) sample_cfg \<and>
   sess_reach sample_limiter sample_fs sample_cfg two_calls \<and>
   (\<exists>st'. sess_reach sample_limiter sample_fs sample_cfg st' \<and> sys_reach sample_cfg two_calls st' \<and>
          call_results 0 1 st' \<noteq> None \<and> call_results 1 1 st' \<noteq> None)"
proof -
  have h: "0 < concurrency sample_limiter" "\<forall>c \<in> set sample_cfg. expected_settle (snd c) \<noteq> None"
    by (simp_all add: sample_limiter_def sample_cfg_def expected_settle_def)
  have la: "list_all (\<lambda>c. expected_settle (snd c) \<noteq> None) sample_cfg" using h(2) by (simp add: list_all_iff)
  show ?thesis using sample_idle h la two_calls_reach overlapping_calls_complete [OF sample_idle h two_calls_reach] by blast
qed

end
