(* ===== verification/Spec2Isabelle.thy ===== *)
theory Spec2Isabelle
  imports Orchestrator Session
begin

text \<open>
  \<^bold>\<open>A verification development of \<open>src/src/downloader.ts\<close> (Harmonix).\<close>

  \<^bold>\<open>The program.\<close>  The class \<open>YoutubeDownloader\<close> downloads the audio of every item
  of a playlist.  Its constructor validates the URL and the output folder, parses
  the URL and builds a \<open>p-limit\<close> limiter.  \<open>downloadPlaylist\<close> reads the \<open>list\<close>
  parameter of the URL, creates the folder, prints a banner, asks the playlist
  lister (\<open>ytpl\<close>) for the items, submits one \<open>downloadSingle\<close> per item to the
  limiter, waits for all of them with \<open>Promise.all\<close> and prints a report with
  \<open>logResults\<close>.  \<open>downloadSingle\<close> pipes the media stream (\<open>ytdl\<close>) into a write
  stream on \<open>outputFolder/slug(title).mp3\<close>.  The first of the stream error, the
  write error and the finish events settles its promise.  On a rejection it
  unlinks the file and returns a failure result; it never throws.

  \<^bold>\<open>Theories and what they model.\<close>
  \<^item> \<open>Prelude\<close>: shared types.  Thrown values are \<open>jsval\<close> and console lines are
    \<open>console\<close>.  It also holds JavaScript's out-of-range array read (\<open>js_nth\<close>)
    and the decimal printing of template literals (\<open>show_nat\<close>, with its
    round trip \<open>dec_value_show_nat\<close>).
  \<^item> \<open>Report\<close>: \<open>PlaylistItem\<close>, \<open>DownloadResult\<close> and \<open>logResults\<close> (lines 14--30
    and 110--122).  It includes the \<open>TypeError\<close> that \<open>items[index].title\<close> would
    raise on an undefined item.  The spec's Run Report is the abstract record
    \<open>run_report\<close>, and \<open>render_report\<close> is its printed form.
  \<^item> \<open>Paths\<close>: \<open>getOutputPath\<close> (lines 60--62) with \<open>path.join\<close>'s POSIX
    normalisation.  \<open>createSlug\<close> is a parameter.
  \<^item> \<open>Filesystem\<close>: the \<open>node:fs\<close> calls the code makes, over entries naming inodes
    (POSIX semantics): open with truncation, positional writes, \<open>unlink\<close>,
    \<open>existsSync\<close> and recursive \<open>mkdir\<close>.
  \<^item> \<open>Download\<close>: \<open>downloadSingle\<close> (lines 64--88) as a per-item machine.
    \<^item> The environment supplies a script of stream events (\<open>dl_env\<close>):
      \<open>Opened\<close> (the asynchronous open of \<open>createWriteStream\<close>), \<open>Chunk\<close>,
      \<open>ReadFail\<close>, \<open>WriteFail\<close> and \<open>Finish\<close>.
    \<^item> \<open>dl_event\<close> delivers the next event.  \<open>ws_effect\<close> is its effect on the
      write stream (data buffered until the open).  \<open>settle_phase\<close> is the three
      handlers of lines 72--74.
    \<^item> \<open>dl_unlink\<close> is the completion of the catch block's \<open>fs.unlink\<close>.
  \<^item> \<open>Limiter\<close>: \<open>p-limit\<close>, modelled from the spec because its code is not in
    the repository.  It has an active count and a FIFO queue.  Its operations
    are \<open>Submit\<close>, \<open>Check\<close> (the microtask that admits the head of the queue)
    and \<open>Done\<close> (a task settled).
  \<^item> \<open>System\<close>: the fan-out of lines 102--106.
    \<^item> \<open>launch\<close> submits every item in order and admits the first ones.
    \<^item> \<open>sys_step\<close> performs one step of one admitted download, chosen by the
      schedule.  When the step makes that download return, the limiter's
      \<open>next()\<close> runs in the same turn.
    \<^item> \<open>sys_reach\<close> is reachability, as an inductive relation.
    \<^item> \<open>sys_inv\<close> is the invariant: FIFO admission, the active count equals the
      downloads in flight, at most the concurrency are in flight, no slot is
      idle while an item waits, and each download agrees with its script.
  \<^item> \<open>Runs\<close>: properties of every interleaving.
    \<^item> \<open>sys_measure\<close> is a termination measure: per item, its pending events plus
      a weight of its phase, or its script length plus 3 while it is queued.
      Every step decreases it, so no schedule is longer than its value at the
      launch.
    \<^item> A progress lemma shows that a step is always enabled until every result
      is in.  From it follows the liveness theorem.
    \<^item> \<open>launch_closed_form\<close>: the launch, computed by running the limiter's
      operations one at a time, equals a closed form.  The first
      min(n, concurrency) items are started and the rest are queued in order.
  \<^item> \<open>Url\<close>: the platform's URL API, which the code only calls: \<open>new URL\<close>
    (line 43) and \<open>searchParams.get\<close> (line 91).  It is not repository code; it
    is modelled after the WHATWG standard (scheme, per-scheme authority and host
    parsing, query, form-urlencoded reading) so that the constructor's and
    \<open>downloadPlaylist\<close>'s outcomes follow from the URL string.  Only the two call
    sites are mapped to the source.
  \<^item> \<open>Orchestrator\<close>: the constructor, \<open>validateInputs\<close>, \<open>ensureOutputFolder\<close>
    and \<open>downloadPlaylist\<close>, with every early return and throw.
    \<^item> \<open>ytpl\<close> and \<open>ytdl\<close> are parameters.
    \<^item> A run is driven by a schedule of download steps.  A schedule that names
      a step that is not enabled is not a behaviour of the program; its status
      is \<open>Unscheduled\<close>.
  \<^item> \<open>Session\<close>: several \<open>downloadPlaylist\<close> calls on one downloader, which share
    the limiter built once by the constructor (lines 39 and 45).
    \<^item> \<open>extend\<close> is one more call's fan-out (lines 102--105) on the state of the
      calls already in flight.
    \<^item> \<open>sess_reach\<close> interleaves calls, folder creations and download steps in
      any order.  A single call is the case \<open>launch_is_extend\<close>.
    \<^item> \<open>call_results\<close> is the results array of one call's \<open>Promise.all\<close>.

  \<^bold>\<open>What is proved.\<close>
  \<^item> Report contract: \<open>Orchestrator.downloadPlaylist_report\<close> and
    \<open>Report.logResults_refines_report\<close>.  Under every interleaving, a completed
    run prints the rendering of the spec's Run Report, in playlist order, for
    the outcomes the scripts determine.
  \<^item> Per-download results:
    \<^item> \<open>Runs.results_independent_of_interleaving\<close>: the results array does not
      depend on the interleaving.
    \<^item> \<open>Download.downloadSingle_result\<close>: a download returns the outcome of the
      first settling event.
  \<^item> Limiter invariants: the bound on downloads in flight, FIFO admission, no
    idle slot, and an idle limiter after a completed run.
  \<^item> Overlapping calls (\<open>Session\<close>): the bound on downloads in flight holds for
    all calls together, admission stays FIFO across calls, each call's
    results are the ones its own items' scripts determine, and when every
    script settles every call's \<open>Promise.all\<close> can still resolve
    (\<open>Session.overlapping_calls_complete\<close>).
  \<^item> Termination of every interleaving.  Liveness when every script settles
    (\<open>Runs.playlist_run_completes\<close>, \<open>Orchestrator.downloadPlaylist_can_complete\<close>).
    With concurrency 1, a first download whose script never settles holds the
    only slot forever and no later item starts (\<open>Runs.hang_blocks_queue\<close>);
    the spec acknowledges this limitation.
  \<^item> Error paths:
    \<^item> A URL without \<open>list\<close> fails before any effect or lister call.
    \<^item> Lister rejections are propagated after the banner.
    \<^item> The constructor's outcome is characterised on every branch.
  \<^item> Round trip through the program: an identifier form-encoded into the URL
    given to the constructor is the one \<open>downloadPlaylist\<close> hands to the lister
    (\<open>Orchestrator.downloadPlaylist_lists_identifier\<close>).
  \<^item> Bounds: the number of lines \<open>logResults\<close> prints
    (\<open>Report.logResults_output_bounds\<close>).
  \<^item> File contents:
    \<^item> \<open>Download.downloadSingle_file_content\<close>: the piped data, including the
      data buffered before the open.
    \<^item> \<open>Paths.getOutputPath_injective\<close>: distinct slugs give distinct paths.

  \<^bold>\<open>Findings shown by theorems.\<close>
  \<^item> For every script rejected before the write stream's asynchronous open, the
    catch block's unlink can complete first; the open then recreates the file,
    holding all the piped data, behind a download reported as failed
    (\<open>Download.cleanup_races_late_open\<close>).
  \<^item> With colliding slugs, a failing item deletes the file of an item reported
    as downloaded; \<open>Orchestrator.slug_collision_deletes_saved_file\<close> computes
    one such run.
  \<^item> The \<open>format\<close> option is ignored (\<open>Orchestrator.construct_ignores_format\<close>).

  \<^bold>\<open>Not modelled.\<close>
  \<^item> The internals of \<open>ytdl\<close> and \<open>ytpl\<close>: external libraries, represented by
    their observable results.
  \<^item> \<open>createSlug\<close>: its source is not in the repository.
  \<^item> IDNA (domain-to-ASCII) of hosts, and non-ASCII input in general:
    characters are 8-bit and read as ASCII.  The path of a URL is not parsed:
    it never makes \<open>new URL\<close> fail and the code does not read it.
  \<^item> Non-integer or infinite concurrency values.  The model's options carry an
    integer, as the spec's do.  \<open>Infinity\<close> would need a limiter without a
    bound, which the \<open>nat\<close> concurrency of \<open>Limiter\<close> cannot express; a fraction
    or \<open>NaN\<close> throws p-limit's \<open>TypeError\<close>, like a concurrency below 1 (see the
    findings).
  \<^item> Closing descriptors and freeing inodes: no operation of the model frees
    an inode, so no property about descriptors staying valid is claimed.
  \<^item> File permissions and path resolution.  A write stream's open never fails
    by itself in the model: an open failure (a missing parent directory, a
    permission error) is the environment's \<open>WriteFail\<close> event, which the
    download handles like any write error, not a consequence of the file
    system's state.
\<close>

end
